theory Spec2Isabelle
  imports Main "HOL-Library.Sublist"
begin

section \<open>JavaScript values\<close>

text \<open>
  The values that flow through the server are JSON values (tool definitions, tool
  arguments, API responses) plus \<open>undefined\<close>. Objects are association lists in property
  enumeration order. Numbers are restricted to integers: doubles that are not integers,
  \<open>NaN\<close> and the infinities are outside the model. Strings are lists of characters, one
  character per UTF-16 code unit of the source (ASCII text). Property names inherited from
  \<open>Object.prototype\<close> (\<open>constructor\<close>, \<open>toString\<close>, ...) are not modelled: a
  lookup sees own properties only.
\<close>

datatype jsval =
    JUndefined
  | JNull
  | JBool bool
  | JNum int
  | JStr string
  | JArr "jsval list"
  | JObj "(string \<times> jsval) list"

text \<open>Errors that are \<open>instanceof Error\<close>: the constructor and the message; the
  queue-full error of the rate limiter also carries its three extra fields.\<close>

datatype js_error =
    Error string
  | TypeError string
  | SyntaxError string
  | RateLimitQueueFullError string int int int

fun message :: "js_error \<Rightarrow> string" where
  "message (Error m) = m"
| "message (TypeError m) = m"
| "message (SyntaxError m) = m"
| "message (RateLimitQueueFullError m _ _ _) = m"

text \<open>A thrown value or rejection reason: an error object, or any other value.\<close>

datatype thrown = Err js_error | Val jsval

fun dec_nat :: "nat \<Rightarrow> string" where
  "dec_nat n = (if n < 10 then [''0123456789'' ! n]
                else dec_nat (n div 10) @ [''0123456789'' ! (n mod 10)])"

declare dec_nat.simps [simp del]

definition dec_int :: "int \<Rightarrow> string" where
  "dec_int i = (if i < 0 then ''-'' @ dec_nat (nat (- i)) else dec_nat (nat i))"

fun join :: "string \<Rightarrow> string list \<Rightarrow> string" where
  "join sep [] = []"
| "join sep [x] = x"
| "join sep (x # y # ys) = x @ sep @ join sep (y # ys)"

text \<open>\<open>String(v)\<close>: an array joins its elements with commas, \<open>null\<close> and
  \<open>undefined\<close> elements giving the empty string; a plain object gives
  \<open>[object Object]\<close>.\<close>

fun js_String :: "jsval \<Rightarrow> string" where
  "js_String JUndefined = ''undefined''"
| "js_String JNull = ''null''"
| "js_String (JBool b) = (if b then ''true'' else ''false'')"
| "js_String (JNum i) = dec_int i"
| "js_String (JStr s) = s"
| "js_String (JArr xs) =
     join '','' (map (\<lambda>x. if x = JNull \<or> x = JUndefined then [] else js_String x) xs)"
| "js_String (JObj kvs) = ''[object Object]''"


subsection \<open>Property access\<close>

definition js_truthy :: "jsval \<Rightarrow> bool" where
  "js_truthy v = (case v of
       JUndefined \<Rightarrow> False
     | JNull \<Rightarrow> False
     | JBool b \<Rightarrow> b
     | JNum n \<Rightarrow> n \<noteq> 0
     | JStr s \<Rightarrow> s \<noteq> []
     | JArr xs \<Rightarrow> True
     | JObj kvs \<Rightarrow> True)"

definition is_digit :: "char \<Rightarrow> bool" where
  "is_digit c = (48 \<le> (of_char c :: nat) \<and> (of_char c :: nat) \<le> 57)"

text \<open>A property name that is an array index: a decimal numeral without leading zero.\<close>

definition array_index :: "string \<Rightarrow> nat option" where
  "array_index k =
     (if k \<noteq> [] \<and> list_all is_digit k \<and> (length k = 1 \<or> hd k \<noteq> CHR ''0'')
      then Some (foldl (\<lambda>a c. 10 * a + (of_char c - 48)) 0 k)
      else None)"

text \<open>\<open>v[k]\<close> for a string \<open>k\<close>: own properties of objects, elements and \<open>length\<close>
  of arrays and strings, \<open>undefined\<close> otherwise.\<close>

definition js_get :: "jsval \<Rightarrow> string \<Rightarrow> jsval" where
  "js_get v k = (case v of
       JObj kvs \<Rightarrow> (case map_of kvs k of Some x \<Rightarrow> x | None \<Rightarrow> JUndefined)
     | JArr xs \<Rightarrow>
         (if k = ''length'' then JNum (int (length xs))
          else case array_index k of
                 Some i \<Rightarrow> if i < length xs then xs ! i else JUndefined
               | None \<Rightarrow> JUndefined)
     | JStr s \<Rightarrow>
         (if k = ''length'' then JNum (int (length s))
          else case array_index k of
                 Some i \<Rightarrow> if i < length s then JStr [s ! i] else JUndefined
               | None \<Rightarrow> JUndefined)
     | _ \<Rightarrow> JUndefined)"

text \<open>\<open>Object.entries(v)\<close> and \<open>Object.keys(v)\<close> for a value that is neither
  \<open>null\<close> nor \<open>undefined\<close>.\<close>

definition js_entries :: "jsval \<Rightarrow> (string \<times> jsval) list" where
  "js_entries v = (case v of
       JObj kvs \<Rightarrow> kvs
     | JArr xs \<Rightarrow> zip (map dec_nat [0 ..< length xs]) xs
     | JStr s \<Rightarrow> zip (map dec_nat [0 ..< length s]) (map (\<lambda>c. JStr [c]) s)
     | _ \<Rightarrow> [])"

definition js_keys :: "jsval \<Rightarrow> string list" where
  "js_keys v = map fst (js_entries v)"

text \<open>The assignment \<open>obj[k] = v\<close>: an existing property keeps its place.\<close>

fun obj_set :: "(string \<times> 'a) list \<Rightarrow> string \<Rightarrow> 'a \<Rightarrow> (string \<times> 'a) list" where
  "obj_set [] k v = [(k, v)]"
| "obj_set ((k', v') # kvs) k v =
     (if k' = k then (k, v) # kvs else (k', v') # obj_set kvs k v)"

subsection \<open>Strings\<close>

definition apostrophe :: char where
  "apostrophe = CHR 0x27"





text \<open>\<open>s.split(sep)\<close> for a one-character separator.\<close>

fun split :: "char \<Rightarrow> string \<Rightarrow> string list" where
  "split sep [] = [[]]"
| "split sep (c # cs) =
     (if c = sep then [] # split sep cs
      else case split sep cs of p # ps \<Rightarrow> (c # p) # ps | [] \<Rightarrow> [[c]])"


section \<open>Rate limiter (client/rate-limiter.js)\<close>

subsection \<open>Configuration and construction\<close>

text \<open>The constructor argument: each option may be absent (\<open>??\<close> then falls back to
  the environment).\<close>

record rl_options =
  opt_enabled :: "bool option"
  opt_intervalMs :: "int option"
  opt_maxConcurrent :: "int option"
  opt_maxQueueSize :: "int option"

text \<open>The values of the environment expressions of the constructor:
  \<open>process.env.MARQETA_RATE_LIMIT_ENABLED !== 'false'\<close> and the three \<open>parseInt\<close>
  results (defaults \<open>500\<close>, \<open>2\<close>, \<open>10\<close> when the variable is unset).\<close>

record rl_env =
  env_enabled :: bool
  env_intervalMs :: int
  env_maxConcurrent :: int
  env_maxQueueSize :: int

definition default_env :: rl_env where
  "default_env = \<lparr>env_enabled = True, env_intervalMs = 500, env_maxConcurrent = 2,
                   env_maxQueueSize = 10\<rparr>"

text \<open>The four fields assigned in the constructor and never again.\<close>

record rl_config =
  enabled :: bool
  intervalMs :: int
  maxConcurrent :: int
  maxQueueSize :: int

definition nullish :: "'a option \<Rightarrow> 'a \<Rightarrow> 'a" where
  "nullish x d = (case x of Some v \<Rightarrow> v | None \<Rightarrow> d)"

definition RateLimiter_new :: "rl_options \<Rightarrow> rl_env \<Rightarrow> js_error + rl_config" where
  "RateLimiter_new config env =
     (let c = \<lparr>enabled = nullish (opt_enabled config) (env_enabled env),
                intervalMs = nullish (opt_intervalMs config) (env_intervalMs env),
                maxConcurrent = nullish (opt_maxConcurrent config) (env_maxConcurrent env),
                maxQueueSize = nullish (opt_maxQueueSize config) (env_maxQueueSize env)\<rparr>
      in if intervalMs c < 0 then Inl (Error ''Rate limit interval must be non-negative'')
         else if maxConcurrent c < 1
           then Inl (Error ''Max concurrent requests must be at least 1'')
         else if maxQueueSize c < 0 then Inl (Error ''Max queue size must be non-negative'')
         else Inr c)"

subsection \<open>State\<close>

text \<open>A queued request: the work item and the enqueue timestamp. The \<open>resolve\<close> and
  \<open>reject\<close> functions of the source settle the promise that \<open>execute\<close> returned for
  this work item; the model records every such settlement in the log \<open>settled\<close>.\<close>

record 'w request =
  execute_fn :: 'w
  timestamp :: int

text \<open>Where the single \<open>processQueue\<close> activation is suspended. \<open>AwaitRateLimit\<close>
  and \<open>AwaitSlot\<close> carry the due time of the pending \<open>sleep\<close> timer, or \<open>None\<close> when
  the awaited function has returned and the continuation is a pending microtask.
  \<open>Dispatching\<close>: \<open>executeRequest\<close> has been called and the work item's synchronous
  prefix runs (it may call back into the limiter) before the loop condition is
  evaluated again.\<close>

datatype drain = Idle | AwaitRateLimit "int option" | AwaitSlot "int option" | Dispatching

text \<open>The mutable fields of the class, the clock (\<open>Date.now()\<close>), the suspended drain
  loop, the work items in progress and three logs of what happened: \<open>accepted\<close> (pushed
  on the queue, in arrival order), \<open>dispatched\<close> (work item invoked by the drain loop,
  with the time) and \<open>settled\<close> (outcome delivered to the caller of \<open>execute\<close>).
  \<open>running\<close>: invoked by the drain loop and not settled; \<open>finishing\<close>:
  \<open>executeRequest\<close> has settled and its \<open>finally\<close> callback is pending;
  \<open>direct\<close>: invoked by a disabled limiter.\<close>

record 'w limiter =
  lastRequestTime :: int
  concurrentRequests :: int
  requestQueue :: "'w request list"
  processing :: bool
  now :: int
  drain :: drain
  running :: "'w list"
  finishing :: "'w list"
  direct :: "'w list"
  accepted :: "'w list"
  dispatched :: "('w \<times> int) list"
  settled :: "('w \<times> (thrown + jsval)) list"

definition init :: "int \<Rightarrow> 'w limiter" where
  "init t0 = \<lparr>lastRequestTime = 0, concurrentRequests = 0, requestQueue = [],
               processing = False, now = t0, drain = Idle, running = [], finishing = [],
               direct = [], accepted = [], dispatched = [], settled = []\<rparr>"

subsection \<open>Methods\<close>

text \<open>\<open>Math.ceil(a / b)\<close> for \<open>b > 0\<close>.\<close>

definition ceil_div :: "int \<Rightarrow> int \<Rightarrow> int" where
  "ceil_div a b = - ((- a) div b)"

definition estimatedWaitTime :: "rl_config \<Rightarrow> 'w limiter \<Rightarrow> int" where
  "estimatedWaitTime c s =
     (let concurrencyFactor = ceil_div (int (length (requestQueue s))) (maxConcurrent c)
      in max (concurrencyFactor * intervalMs c) (intervalMs c))"

definition createQueueFullError :: "rl_config \<Rightarrow> 'w limiter \<Rightarrow> js_error" where
  "createQueueFullError c s =
     (let waitTime = estimatedWaitTime c s
      in RateLimitQueueFullError
           (''Rate limit queue is full ('' @ dec_int (int (length (requestQueue s))) @ ''/''
              @ dec_int (maxQueueSize c) @ ''). '' @ ''Please retry after ''
              @ dec_int waitTime @ ''ms'')
           waitTime (int (length (requestQueue s))) (maxQueueSize c))"

fun retryAfter :: "js_error \<Rightarrow> int option" where
  "retryAfter (RateLimitQueueFullError _ r _ _) = Some r"
| "retryAfter _ = None"

fun queueLength :: "js_error \<Rightarrow> int option" where
  "queueLength (RateLimitQueueFullError _ _ q _) = Some q"
| "queueLength _ = None"

fun error_maxQueueSize :: "js_error \<Rightarrow> int option" where
  "error_maxQueueSize (RateLimitQueueFullError _ _ _ m) = Some m"
| "error_maxQueueSize _ = None"

text \<open>\<open>waitForRateLimit\<close>, up to its \<open>await\<close>: the timer is set for \<open>waitTime\<close> from
  now when \<open>waitTime > 0\<close>.\<close>

definition waitForRateLimit :: "rl_config \<Rightarrow> 'w limiter \<Rightarrow> 'w limiter" where
  "waitForRateLimit c s =
     (let timeSinceLastRequest = now s - lastRequestTime s;
          waitTime = intervalMs c - timeSinceLastRequest
      in if waitTime > 0 then s\<lparr>drain := AwaitRateLimit (Some (now s + waitTime))\<rparr>
         else s\<lparr>drain := AwaitRateLimit None\<rparr>)"

text \<open>The \<open>while\<close> condition of \<open>processQueue\<close> and what follows it synchronously.\<close>

definition loop_head :: "rl_config \<Rightarrow> 'w limiter \<Rightarrow> 'w limiter" where
  "loop_head c s =
     (if length (requestQueue s) > 0 then waitForRateLimit c s
      else s\<lparr>processing := False, drain := Idle\<rparr>)"

definition processQueue :: "rl_config \<Rightarrow> 'w limiter \<Rightarrow> 'w limiter" where
  "processQueue c s = loop_head c (s\<lparr>processing := True\<rparr>)"

text \<open>One evaluation of the \<open>while\<close> condition of \<open>waitForConcurrencySlot\<close>.\<close>

definition waitForConcurrencySlot :: "rl_config \<Rightarrow> 'w limiter \<Rightarrow> 'w limiter" where
  "waitForConcurrencySlot c s =
     (if concurrentRequests s \<ge> maxConcurrent c
      then s\<lparr>drain := AwaitSlot (Some (now s + 50))\<rparr>
      else s\<lparr>drain := AwaitSlot None\<rparr>)"

text \<open>The loop body after both waits: \<open>shift\<close>, the two assignments and the call of
  \<open>executeRequest\<close>, which invokes the work item.\<close>

definition dequeue :: "rl_config \<Rightarrow> 'w limiter \<Rightarrow> 'w limiter" where
  "dequeue c s =
     (case requestQueue s of
        [] \<Rightarrow> loop_head c s
      | request # rest \<Rightarrow>
          s\<lparr>requestQueue := rest,
            concurrentRequests := concurrentRequests s + 1,
            lastRequestTime := now s,
            running := running s @ [execute_fn request],
            dispatched := dispatched s @ [(execute_fn request, now s)],
            drain := Dispatching\<rparr>)"

definition due :: "int option \<Rightarrow> 'w limiter \<Rightarrow> bool" where
  "due t s = (case t of None \<Rightarrow> True | Some wake \<Rightarrow> wake \<le> now s)"

text \<open>The drain loop runs on from where it is suspended, when it can.\<close>

definition resume :: "rl_config \<Rightarrow> 'w limiter \<Rightarrow> 'w limiter" where
  "resume c s =
     (case drain s of
        Idle \<Rightarrow> s
      | AwaitRateLimit t \<Rightarrow> if due t s then waitForConcurrencySlot c s else s
      | AwaitSlot t \<Rightarrow>
          (case t of None \<Rightarrow> dequeue c s
           | Some wake \<Rightarrow> if wake \<le> now s then waitForConcurrencySlot c s else s)
      | Dispatching \<Rightarrow> loop_head c s)"

definition execute :: "rl_config \<Rightarrow> 'w \<Rightarrow> 'w limiter \<Rightarrow> 'w limiter" where
  "execute c fn s =
     (if \<not> enabled c then s\<lparr>direct := direct s @ [fn]\<rparr>
      else if int (length (requestQueue s)) \<ge> maxQueueSize c
        then s\<lparr>settled := settled s @ [(fn, Inl (Err (createQueueFullError c s)))]\<rparr>
      else
        let s1 = s\<lparr>requestQueue := requestQueue s @ [\<lparr>execute_fn = fn, timestamp = now s\<rparr>],
                   accepted := accepted s @ [fn]\<rparr>
        in if \<not> processing s1 then processQueue c s1 else s1)"

text \<open>\<open>executeRequest\<close> after the work item has settled with \<open>r\<close>.\<close>

definition executeRequest :: "thrown + jsval \<Rightarrow> thrown + jsval" where
  "executeRequest r =
     (case r of
        Inr result \<Rightarrow> Inr result
      | Inl error \<Rightarrow>
          Inl (case error of Err e \<Rightarrow> Err e | Val v \<Rightarrow> Err (Error (js_String v))))"

definition settle :: "'w \<Rightarrow> thrown + jsval \<Rightarrow> 'w limiter \<Rightarrow> 'w limiter" where
  "settle fn r s =
     (if fn \<in> set (running s)
      then s\<lparr>running := remove1 fn (running s), finishing := finishing s @ [fn],
             settled := settled s @ [(fn, executeRequest r)]\<rparr>
      else if fn \<in> set (direct s)
      then s\<lparr>direct := remove1 fn (direct s), settled := settled s @ [(fn, r)]\<rparr>
      else s)"

text \<open>The \<open>finally\<close> callback registered in \<open>processQueue\<close>.\<close>

definition finally_cb :: "'w \<Rightarrow> 'w limiter \<Rightarrow> 'w limiter" where
  "finally_cb fn s =
     (if fn \<in> set (finishing s)
      then s\<lparr>finishing := remove1 fn (finishing s),
             concurrentRequests := concurrentRequests s - 1\<rparr>
      else s)"

definition clearQueue :: "'w limiter \<Rightarrow> 'w limiter" where
  "clearQueue s =
     s\<lparr>settled := settled s
          @ map (\<lambda>request. (execute_fn request, Inl (Err (Error ''Queue cleared''))))
              (requestQueue s),
       requestQueue := []\<rparr>"

subsection \<open>Runs\<close>

text \<open>What can happen to a limiter, one event at a time: a call of \<open>execute\<close> or
  \<open>clearQueue\<close>, the clock advancing, the drain loop running on, a work item in
  progress settling, and the \<open>finally\<close> callback of a settled one. Timers fire no
  earlier than their delay, and the clock never goes back.\<close>

datatype 'w event =
    Execute 'w
  | ClearQueue
  | Advance nat
  | Resume
  | Settle 'w "thrown + jsval"
  | Finally 'w

fun step :: "rl_config \<Rightarrow> 'w event \<Rightarrow> 'w limiter \<Rightarrow> 'w limiter" where
  "step c (Execute fn) s = execute c fn s"
| "step c ClearQueue s = clearQueue s"
| "step c (Advance d) s = s\<lparr>now := now s + int d\<rparr>"
| "step c Resume s = resume c s"
| "step c (Settle fn r) s = settle fn r s"
| "step c (Finally fn) s = finally_cb fn s"

fun run :: "rl_config \<Rightarrow> 'w event list \<Rightarrow> 'w limiter \<Rightarrow> 'w limiter" where
  "run c [] s = s"
| "run c (e # es) s = run c es (step c e s)"

subsection \<open>Invariants\<close>



text \<open>The bounds of the queue and of the concurrency counter, with what the drain loop
  knows where it is suspended: after \<open>waitForConcurrencySlot\<close> has returned a slot is
  free, and only an idle limiter has \<open>processing\<close> unset. The counter counts the work
  items in progress and those whose \<open>finally\<close> callback is pending.\<close>

definition rl_inv :: "rl_config \<Rightarrow> 'w limiter \<Rightarrow> bool" where
  "rl_inv c s \<longleftrightarrow>
     int (length (requestQueue s)) \<le> maxQueueSize c \<and>
     concurrentRequests s = int (length (running s)) + int (length (finishing s)) \<and>
     concurrentRequests s \<le> maxConcurrent c \<and>
     (drain s = AwaitSlot None \<longrightarrow> concurrentRequests s < maxConcurrent c) \<and>
     (processing s \<longleftrightarrow> drain s \<noteq> Idle) \<and>
     direct s = []"






section \<open>Tool definitions and the request executor (client/http-client.js)\<close>

subsection \<open>Tool definitions\<close>

record param_def =
  param_name :: string
  required :: bool

record parameters =
  path_params :: "(string \<times> param_def) list option"
  query_params :: "(string \<times> param_def) list option"
  header_params :: "(string \<times> param_def) list option"

record request_body =
  contentType :: string
  body_schema :: jsval

record http_def =
  http_method :: string
  http_path :: string
  http_parameters :: "parameters option"
  requestBody :: "request_body option"

record tool =
  tool_name :: string
  service :: string
  scope :: string
  http :: http_def
  inputSchema :: jsval
  outputSchema :: jsval


subsection \<open>Request assembly\<close>













section \<open>Validators (the zod library, version 3)\<close>

text \<open>
  The schema converter builds validators with the combinators of the zod library. A
  validator is represented by the combinator term that built it; \<open>zparse\<close> is what its
  \<open>parse\<close> method does, following the library's documented behaviour: the status of a
  result (valid, dirty: issues were found but a value exists, aborted), the parsed value
  and the issues, each a path and a message. \<open>describe\<close> does not change a validator and
  is left out. The syntactic checks of strings (regular expressions, \<open>email\<close>,
  \<open>uuid\<close>, \<open>datetime\<close>, \<open>date\<close>) are parameters.
\<close>

record string_lib =
  regex_valid :: "string \<Rightarrow> bool"
  regex_test :: "string \<Rightarrow> string \<Rightarrow> bool"
  is_email :: "string \<Rightarrow> bool"
  is_uuid :: "string \<Rightarrow> bool"
  is_datetime :: "string \<Rightarrow> bool"
  is_date :: "string \<Rightarrow> bool"

datatype string_check = MinLen int | MaxLen int | Regex string | Email | Uuid | Datetime | Date

datatype number_check = IsInt | Min int | Max int

datatype unknown_keys = Strip | Passthrough

datatype zod =
    ZAny
  | ZNever
  | ZString "string_check list"
  | ZEnum "jsval list"
  | ZNumber "number_check list"
  | ZBoolean
  | ZArray zod "int option" "int option"
  | ZRecord zod
  | ZObject "(string \<times> zod) list" unknown_keys
  | ZOptional zod
  | ZUnion "zod list"
  | ZIntersection zod zod
  | ZLazy zod

datatype seg = Key string | Index nat

type_synonym issue = "seg list \<times> string"

datatype status = Valid | Dirty | Aborted

type_synonym parsed = "status \<times> jsval \<times> issue list"

definition type_name :: "jsval \<Rightarrow> string" where
  "type_name v = (case v of
       JUndefined \<Rightarrow> ''undefined''
     | JNull \<Rightarrow> ''null''
     | JBool b \<Rightarrow> ''boolean''
     | JNum n \<Rightarrow> ''number''
     | JStr s \<Rightarrow> ''string''
     | JArr xs \<Rightarrow> ''array''
     | JObj kvs \<Rightarrow> ''object'')"

definition invalid_type :: "seg list \<Rightarrow> string \<Rightarrow> jsval \<Rightarrow> parsed" where
  "invalid_type p expected v =
     (Aborted, JUndefined,
      [(p, if v = JUndefined then ''Required''
           else ''Expected '' @ expected @ '', received '' @ type_name v)])"

definition check_string :: "string_lib \<Rightarrow> seg list \<Rightarrow> string \<Rightarrow> string_check \<Rightarrow> issue list" where
  "check_string lib p s c = (case c of
       MinLen n \<Rightarrow> if int (length s) < n
         then [(p, ''String must contain at least '' @ dec_int n @ '' character(s)'')] else []
     | MaxLen n \<Rightarrow> if int (length s) > n
         then [(p, ''String must contain at most '' @ dec_int n @ '' character(s)'')] else []
     | Regex r \<Rightarrow> if \<not> regex_test lib r s then [(p, ''Invalid'')] else []
     | Email \<Rightarrow> if \<not> is_email lib s then [(p, ''Invalid email'')] else []
     | Uuid \<Rightarrow> if \<not> is_uuid lib s then [(p, ''Invalid uuid'')] else []
     | Datetime \<Rightarrow> if \<not> is_datetime lib s then [(p, ''Invalid datetime'')] else []
     | Date \<Rightarrow> if \<not> is_date lib s then [(p, ''Invalid date'')] else [])"

definition check_number :: "seg list \<Rightarrow> int \<Rightarrow> number_check \<Rightarrow> issue list" where
  "check_number p n c = (case c of
       IsInt \<Rightarrow> []
     | Min m \<Rightarrow> if n < m
         then [(p, ''Number must be greater than or equal to '' @ dec_int m)] else []
     | Max m \<Rightarrow> if n > m
         then [(p, ''Number must be less than or equal to '' @ dec_int m)] else [])"

definition checked :: "jsval \<Rightarrow> issue list \<Rightarrow> parsed" where
  "checked v issues = (if issues = [] then Valid else Dirty, v, issues)"

definition joinValues :: "jsval list \<Rightarrow> string" where
  "joinValues vals =
     join '' | '' (map (\<lambda>v. case v of JStr s \<Rightarrow> [apostrophe] @ s @ [apostrophe]
                                | _ \<Rightarrow> js_String v) vals)"

text \<open>The status of a composite result: aborted when a part is, else dirty when a part
  is or the composite has issues of its own.\<close>

definition merge_status :: "issue list \<Rightarrow> status list \<Rightarrow> status" where
  "merge_status own parts =
     (if Aborted \<in> set parts then Aborted
      else if Dirty \<in> set parts \<or> own \<noteq> [] then Dirty else Valid)"

text \<open>The result object of an object or record validator: the pairs in order, a pair
  being left out when its key is \<open>__proto__\<close>, or when its value is \<open>undefined\<close> and
  the key is not a key of the input.\<close>

fun build_object :: "(string \<times> jsval \<times> bool) list \<Rightarrow> (string \<times> jsval) list
    \<Rightarrow> (string \<times> jsval) list" where
  "build_object [] acc = acc"
| "build_object ((k, v, alwaysSet) # rest) acc =
     build_object rest
       (if k \<noteq> ''__proto__'' \<and> (v \<noteq> JUndefined \<or> alwaysSet) then obj_set acc k v else acc)"

text \<open>\<open>mergeValues\<close> of the intersection validator. Two results that are the same
  primitive value merge to it; objects merge key by key, arrays element by element.\<close>

fun mergeValues :: "jsval \<Rightarrow> jsval \<Rightarrow> jsval option"
  and merge_shared :: "(string \<times> jsval) list \<Rightarrow> (string \<times> jsval) list
    \<Rightarrow> (string \<times> jsval) list option"
  and merge_items :: "jsval list \<Rightarrow> jsval list \<Rightarrow> jsval list option" where
  "mergeValues (JObj a) b =
     (case b of
        JObj b' \<Rightarrow>
          (case merge_shared a b' of
             None \<Rightarrow> None
           | Some shared \<Rightarrow>
               Some (JObj (fold (\<lambda>(k, v) acc. obj_set acc k v) shared
                             (fold (\<lambda>(k, v) acc. obj_set acc k v) b' a))))
      | _ \<Rightarrow> None)"
| "mergeValues (JArr a) b =
     (case b of
        JArr b' \<Rightarrow> if length a \<noteq> length b' then None else map_option JArr (merge_items a b')
      | _ \<Rightarrow> None)"
| "mergeValues JUndefined b = (if b = JUndefined then Some JUndefined else None)"
| "mergeValues JNull b = (if b = JNull then Some JNull else None)"
| "mergeValues (JBool x) b = (if b = JBool x then Some (JBool x) else None)"
| "mergeValues (JNum x) b = (if b = JNum x then Some (JNum x) else None)"
| "mergeValues (JStr x) b = (if b = JStr x then Some (JStr x) else None)"
| "merge_shared [] b = Some []"
| "merge_shared ((k, va) # a) b =
     (case map_of b k of
        None \<Rightarrow> merge_shared a b
      | Some vb \<Rightarrow>
          (case mergeValues va vb of
             None \<Rightarrow> None
           | Some m \<Rightarrow> map_option (\<lambda>rest. (k, m) # rest) (merge_shared a b)))"
| "merge_items [] b = Some []"
| "merge_items (x # a) b =
     (case b of
        [] \<Rightarrow> None
      | y # b' \<Rightarrow>
          (case mergeValues x y of
             None \<Rightarrow> None
           | Some m \<Rightarrow> map_option (\<lambda>rest. m # rest) (merge_items a b')))"

lemma validator_size_in_shape:
  "(k, z) \<in> set shape \<Longrightarrow> size z \<le> size_list (size_prod (\<lambda>x. 0) size) shape"
  by (rule size_list_estimation' [of "(k, z)"]) auto

text \<open>The union validator tries its options in order: the first valid result wins; when
  there is none, the first dirty result is returned, and when there is none either the
  union is invalid.\<close>

definition pick_union :: "seg list \<Rightarrow> parsed list \<Rightarrow> parsed" where
  "pick_union p results =
     (case filter (\<lambda>r. fst r = Valid) results of
        r # _ \<Rightarrow> r
      | [] \<Rightarrow>
          (case filter (\<lambda>r. fst r = Dirty) results of
             d # _ \<Rightarrow> d
           | [] \<Rightarrow> (Aborted, JUndefined, [(p, ''Invalid input'')])))"

function zparse :: "string_lib \<Rightarrow> zod \<Rightarrow> seg list \<Rightarrow> jsval \<Rightarrow> parsed" where
  "zparse lib ZAny p v = (Valid, v, [])"
| "zparse lib ZNever p v = invalid_type p ''never'' v"
| "zparse lib (ZString checks) p v =
     (case v of
        JStr s \<Rightarrow> checked v (concat (map (check_string lib p s) checks))
      | _ \<Rightarrow> invalid_type p ''string'' v)"
| "zparse lib (ZEnum vals) p v =
     (case v of
        JStr s \<Rightarrow>
          if JStr s \<in> set vals then (Valid, v, [])
          else (Aborted, JUndefined,
                [(p, ''Invalid enum value. Expected '' @ joinValues vals @ '', received ''
                     @ [apostrophe] @ s @ [apostrophe])])
      | _ \<Rightarrow> invalid_type p (joinValues vals) v)"
| "zparse lib (ZNumber checks) p v =
     (case v of
        JNum n \<Rightarrow> checked v (concat (map (check_number p n) checks))
      | _ \<Rightarrow> invalid_type p ''number'' v)"
| "zparse lib ZBoolean p v =
     (case v of
        JBool b \<Rightarrow> (Valid, v, [])
      | _ \<Rightarrow> invalid_type p ''boolean'' v)"
| "zparse lib (ZArray item minLength maxLength) p v =
     (case v of
        JArr xs \<Rightarrow>
          (let own =
                 (case minLength of
                    None \<Rightarrow> []
                  | Some n \<Rightarrow>
                      if int (length xs) < n
                      then [(p, ''Array must contain at least '' @ dec_int n @ '' element(s)'')]
                      else [])
                 @ (case maxLength of
                      None \<Rightarrow> []
                    | Some n \<Rightarrow>
                        if int (length xs) > n
                        then [(p, ''Array must contain at most '' @ dec_int n @ '' element(s)'')]
                        else []);
               results = map (\<lambda>(i, x). zparse lib item (p @ [Index i]) x)
                           (zip [0 ..< length xs] xs)
           in (merge_status own (map fst results),
               JArr (map (\<lambda>r. fst (snd r)) results),
               own @ concat (map (\<lambda>r. snd (snd r)) results)))
      | _ \<Rightarrow> invalid_type p ''array'' v)"
| "zparse lib (ZRecord valueType) p v =
     (case v of
        JObj kvs \<Rightarrow>
          (let results = map (\<lambda>(k, x). (k, zparse lib valueType (p @ [Key k]) x)) kvs
           in (merge_status [] (map (\<lambda>(k, r). fst r) results),
               JObj (build_object (map (\<lambda>(k, r). (k, fst (snd r), True)) results) []),
               concat (map (\<lambda>(k, r). snd (snd r)) results)))
      | _ \<Rightarrow> invalid_type p ''object'' v)"
| "zparse lib (ZObject shape unknownKeys) p v =
     (case v of
        JObj kvs \<Rightarrow>
          (let results = map (\<lambda>(k, keyValidator).
                                (k, zparse lib keyValidator (p @ [Key k]) (js_get v k))) shape;
               extraKeys = filter (\<lambda>(k, x). k \<notin> set (map fst shape)) kvs
           in (merge_status [] (map (\<lambda>(k, r). fst r) results),
               JObj (build_object
                      (map (\<lambda>(k, r). (k, fst (snd r), k \<in> set (map fst kvs))) results
                       @ (if unknownKeys = Passthrough
                          then map (\<lambda>(k, x). (k, js_get v k, False)) extraKeys else []))
                      []),
               concat (map (\<lambda>(k, r). snd (snd r)) results)))
      | _ \<Rightarrow> invalid_type p ''object'' v)"
| "zparse lib (ZOptional inner) p v =
     (if v = JUndefined then (Valid, JUndefined, []) else zparse lib inner p v)"
| "zparse lib (ZUnion options) p v =
     pick_union p (map (\<lambda>option. zparse lib option p v) options)"
| "zparse lib (ZIntersection left right) p v =
     (let l = zparse lib left p v;
          r = zparse lib right p v;
          issues = snd (snd l) @ snd (snd r)
      in if fst l = Aborted \<or> fst r = Aborted then (Aborted, JUndefined, issues)
         else case mergeValues (fst (snd l)) (fst (snd r)) of
                None \<Rightarrow>
                  (Aborted, JUndefined,
                   issues @ [(p, ''Intersection results could not be merged'')])
              | Some merged \<Rightarrow>
                  (if fst l = Dirty \<or> fst r = Dirty then Dirty else Valid, merged, issues))"
| "zparse lib (ZLazy inner) p v = zparse lib inner p v"
  by pat_completeness auto

termination
  by (relation "measure (\<lambda>(lib, z, p, v). size z)")
     (auto simp: less_Suc_eq_le intro: validator_size_in_shape size_list_estimation')

text \<open>\<open>schema.parse(v)\<close>: the parsed value, or the issues of the \<open>ZodError\<close> that is
  thrown.\<close>

definition parse :: "string_lib \<Rightarrow> zod \<Rightarrow> jsval \<Rightarrow> issue list + jsval" where
  "parse lib z v =
     (case zparse lib z [] v of
        (Valid, out, issues) \<Rightarrow> Inr out
      | (_, out, issues) \<Rightarrow> Inl issues)"

definition accepts :: "string_lib \<Rightarrow> zod \<Rightarrow> jsval \<Rightarrow> bool" where
  "accepts lib z v \<longleftrightarrow> fst (zparse lib z [] v) = Valid"


section \<open>Schema converter (parser/schema-converter.js)\<close>

subsection \<open>Compiling a schema to a validator\<close>

text \<open>
  \<open>jsonSchemaToZod\<close> reads a schema, a JSON value, keyword by keyword. It can throw
  (\<open>new RegExp\<close> on a pattern that is not a regular expression). Where a keyword that
  the conversion uses holds a value outside its JSON Schema type (a bound that is not a
  number, a \<open>pattern\<close> that is not a string, an \<open>enum\<close>, \<open>required\<close>,
  \<open>oneOf\<close>, \<open>anyOf\<close> or \<open>allOf\<close> that is not an array), the result is
  \<open>IllTyped\<close> and nothing is claimed about the source.
\<close>

datatype failure = Throws js_error | IllTyped

definition bindE :: "failure + 'a \<Rightarrow> ('a \<Rightarrow> failure + 'b) \<Rightarrow> failure + 'b" where
  "bindE m f = (case m of Inl e \<Rightarrow> Inl e | Inr x \<Rightarrow> f x)"

fun mapE :: "('a \<Rightarrow> failure + 'b) \<Rightarrow> 'a list \<Rightarrow> failure + 'b list" where
  "mapE f [] = Inr []"
| "mapE f (x # xs) =
     (case f x of
        Inl e \<Rightarrow> Inl e
      | Inr y \<Rightarrow> (case mapE f xs of Inl e \<Rightarrow> Inl e | Inr ys \<Rightarrow> Inr (y # ys)))"

lemma mapE_eq: "(\<And>x. x \<in> set xs \<Longrightarrow> f x = g x) \<Longrightarrow> mapE f xs = mapE g xs"
proof (induction xs)
  case Nil
  show ?case by simp
next
  case (Cons x xs)
  have "f x = g x" by (rule Cons.prems) simp
  moreover have "mapE f xs = mapE g xs" by (rule Cons.IH) (simp add: Cons.prems)
  ultimately show ?case by (simp split: sum.splits)
qed

lemma mapE_cong [fundef_cong]:
  "xs = ys \<Longrightarrow> (\<And>x. x \<in> set ys \<Longrightarrow> f x = g x) \<Longrightarrow> mapE f xs = mapE g ys"
  using mapE_eq [of ys f g] by blast

text \<open>A keyword guarded by \<open>if (schema.k)\<close>, and one guarded by
  \<open>schema.k !== undefined\<close>, whose value is used as a number.\<close>

definition truthy_number :: "jsval \<Rightarrow> failure + int option" where
  "truthy_number v =
     (if \<not> js_truthy v then Inr None
      else case v of JNum n \<Rightarrow> Inr (Some n) | _ \<Rightarrow> Inl IllTyped)"

definition defined_number :: "jsval \<Rightarrow> failure + int option" where
  "defined_number v =
     (case v of JUndefined \<Rightarrow> Inr None | JNum n \<Rightarrow> Inr (Some n) | _ \<Rightarrow> Inl IllTyped)"

text \<open>\<open>if (schema.pattern) ... new RegExp(schema.pattern)\<close>.\<close>

definition pattern_check :: "string_lib \<Rightarrow> jsval \<Rightarrow> failure + string_check list" where
  "pattern_check lib v =
     (if \<not> js_truthy v then Inr []
      else case v of
             JStr r \<Rightarrow>
               if regex_valid lib r then Inr [Regex r]
               else Inl (Throws (SyntaxError ''Invalid regular expression''))
           | _ \<Rightarrow> Inl IllTyped)"

text \<open>\<open>!schema.required || !schema.required.includes(key)\<close>, negated.\<close>

definition is_required :: "jsval \<Rightarrow> string \<Rightarrow> failure + bool" where
  "is_required r key =
     (if \<not> js_truthy r then Inr False
      else case r of JArr xs \<Rightarrow> Inr (JStr key \<in> set xs) | _ \<Rightarrow> Inl IllTyped)"

definition string_schema :: "string_lib \<Rightarrow> jsval \<Rightarrow> failure + zod" where
  "string_schema lib schema =
     bindE (truthy_number (js_get schema ''minLength'')) (\<lambda>minLength.
     bindE (truthy_number (js_get schema ''maxLength'')) (\<lambda>maxLength.
     bindE (pattern_check lib (js_get schema ''pattern'')) (\<lambda>pattern.
       let stringSchema = ZString
             ((case minLength of Some n \<Rightarrow> [MinLen n] | None \<Rightarrow> [])
              @ (case maxLength of Some n \<Rightarrow> [MaxLen n] | None \<Rightarrow> [])
              @ pattern);
           stringSchema =
             (if js_get schema ''format'' = JStr ''email'' then ZString [Email]
              else if js_get schema ''format'' = JStr ''uuid'' then ZString [Uuid]
              else if js_get schema ''format'' = JStr ''date-time'' then ZString [Datetime]
              else if js_get schema ''format'' = JStr ''date'' then ZString [Date]
              else stringSchema)
       in if js_truthy (js_get schema ''enum'')
          then (case js_get schema ''enum'' of
                  JArr vals \<Rightarrow> Inr (ZEnum vals)
                | _ \<Rightarrow> Inl IllTyped)
          else Inr stringSchema)))"

definition number_schema :: "jsval \<Rightarrow> failure + zod" where
  "number_schema schema =
     bindE (defined_number (js_get schema ''minimum'')) (\<lambda>minimum.
     bindE (defined_number (js_get schema ''maximum'')) (\<lambda>maximum.
       Inr (ZNumber
         ((if js_get schema ''type'' = JStr ''integer'' then [IsInt] else [])
          @ (case minimum of Some n \<Rightarrow> [Min n] | None \<Rightarrow> [])
          @ (case maximum of Some n \<Rightarrow> [Max n] | None \<Rightarrow> [])))))"

text \<open>The three handlers of composite schemas; \<open>conv\<close> is \<open>this.jsonSchemaToZod\<close>.\<close>

definition handleOneOf :: "(jsval \<Rightarrow> failure + zod) \<Rightarrow> jsval list \<Rightarrow> failure + zod" where
  "handleOneOf conv schemas =
     (if length schemas = 0 then Inr ZNever
      else if length schemas = 1 then conv (schemas ! 0)
      else case mapE conv schemas of
             Inl e \<Rightarrow> Inl e
           | Inr zodSchemas \<Rightarrow> Inr (ZUnion zodSchemas))"

definition handleAnyOf :: "(jsval \<Rightarrow> failure + zod) \<Rightarrow> jsval list \<Rightarrow> failure + zod" where
  "handleAnyOf conv schemas =
     (if length schemas = 0 then Inr ZNever
      else if length schemas = 1 then conv (schemas ! 0)
      else case mapE conv schemas of
             Inl e \<Rightarrow> Inl e
           | Inr zodSchemas \<Rightarrow> Inr (ZUnion zodSchemas))"

definition handleAllOf :: "(jsval \<Rightarrow> failure + zod) \<Rightarrow> jsval list \<Rightarrow> failure + zod" where
  "handleAllOf conv schemas =
     (if length schemas = 0 then Inr ZAny
      else if length schemas = 1 then conv (schemas ! 0)
      else case mapE conv schemas of
             Inl e \<Rightarrow> Inl e
           | Inr zodSchemas \<Rightarrow>
               Inr (ZIntersection (zodSchemas ! 0)
                      (foldl (\<lambda>acc curr. ZIntersection acc curr) (zodSchemas ! 0)
                         (tl zodSchemas))))"

lemma handleOneOf_cong [fundef_cong]:
  "schemas = schemas' \<Longrightarrow> (\<And>s. s \<in> set schemas' \<Longrightarrow> f s = g s)
     \<Longrightarrow> handleOneOf f schemas = handleOneOf g schemas'"
proof -
  assume s: "schemas = schemas'" and eq: "\<And>s. s \<in> set schemas' \<Longrightarrow> f s = g s"
  have m: "mapE f schemas' = mapE g schemas'"
    by (rule mapE_eq) (rule eq)
  have "length schemas' = 1 \<Longrightarrow> f (schemas' ! 0) = g (schemas' ! 0)"
    by (rule eq) simp
  with s m show ?thesis
    by (simp add: handleOneOf_def)
qed

lemma handleAnyOf_cong [fundef_cong]:
  "schemas = schemas' \<Longrightarrow> (\<And>s. s \<in> set schemas' \<Longrightarrow> f s = g s)
     \<Longrightarrow> handleAnyOf f schemas = handleAnyOf g schemas'"
proof -
  assume s: "schemas = schemas'" and eq: "\<And>s. s \<in> set schemas' \<Longrightarrow> f s = g s"
  have m: "mapE f schemas' = mapE g schemas'"
    by (rule mapE_eq) (rule eq)
  have "length schemas' = 1 \<Longrightarrow> f (schemas' ! 0) = g (schemas' ! 0)"
    by (rule eq) simp
  with s m show ?thesis
    by (simp add: handleAnyOf_def)
qed

lemma handleAllOf_cong [fundef_cong]:
  "schemas = schemas' \<Longrightarrow> (\<And>s. s \<in> set schemas' \<Longrightarrow> f s = g s)
     \<Longrightarrow> handleAllOf f schemas = handleAllOf g schemas'"
proof -
  assume s: "schemas = schemas'" and eq: "\<And>s. s \<in> set schemas' \<Longrightarrow> f s = g s"
  have m: "mapE f schemas' = mapE g schemas'"
    by (rule mapE_eq) (rule eq)
  have "length schemas' = 1 \<Longrightarrow> f (schemas' ! 0) = g (schemas' ! 0)"
    by (rule eq) simp
  with s m show ?thesis
    by (simp add: handleAllOf_def)
qed

text \<open>The size of a value, for the recursion of the converter.\<close>

fun jsize :: "jsval \<Rightarrow> nat"
  and jsize_list :: "jsval list \<Rightarrow> nat"
  and jsize_props :: "(string \<times> jsval) list \<Rightarrow> nat" where
  "jsize (JArr xs) = Suc (jsize_list xs)"
| "jsize (JObj kvs) = Suc (jsize_props kvs)"
| "jsize JUndefined = 0"
| "jsize JNull = 0"
| "jsize (JBool b) = 0"
| "jsize (JNum n) = 0"
| "jsize (JStr s) = 0"
| "jsize_list [] = 0"
| "jsize_list (x # xs) = Suc (jsize x + jsize_list xs)"
| "jsize_props [] = 0"
| "jsize_props ((k, x) # kvs) = Suc (jsize x + jsize_props kvs)"

lemma jsize_list_member: "x \<in> set xs \<Longrightarrow> jsize x < jsize_list xs"
  by (induction xs) auto

lemma jsize_props_member: "(k, x) \<in> set kvs \<Longrightarrow> jsize x < jsize_props kvs"
  by (induction kvs) auto

lemma jsize_entries: "(k, x) \<in> set (js_entries v) \<Longrightarrow> jsize x \<le> jsize v"
proof (cases v)
  case (JArr xs)
  assume "(k, x) \<in> set (js_entries v)"
  with JArr have "x \<in> set xs"
    by (auto simp: js_entries_def dest: set_zip_rightD)
  with JArr show ?thesis
    using jsize_list_member [of x xs] by simp
next
  case (JStr s)
  assume "(k, x) \<in> set (js_entries v)"
  with JStr obtain c where "x = JStr [c]"
    by (auto simp: js_entries_def dest!: set_zip_rightD)
  then show ?thesis by simp
next
  case (JObj kvs)
  assume "(k, x) \<in> set (js_entries v)"
  with JObj show ?thesis
    using jsize_props_member [of k x kvs] by (simp add: js_entries_def)
qed (auto simp: js_entries_def)

text \<open>A keyword of a schema: a property name that is neither \<open>length\<close> nor an array
  index. The value of a keyword is part of the schema.\<close>

definition keyword :: "string \<Rightarrow> bool" where
  "keyword k \<longleftrightarrow> k \<noteq> ''length'' \<and> array_index k = None"

lemma jsize_keyword:
  "keyword k \<Longrightarrow> js_get v k \<noteq> JUndefined \<Longrightarrow> jsize (js_get v k) < jsize v"
proof (cases v)
  case (JObj kvs)
  assume "js_get v k \<noteq> JUndefined"
  with JObj obtain x where "map_of kvs k = Some x" and "js_get v k = x"
    by (auto simp: js_get_def split: option.splits)
  with JObj show ?thesis
    using jsize_props_member [of k x kvs] by (auto dest: map_of_SomeD)
qed (auto simp: js_get_def keyword_def)

lemma jsize_keyword_truthy:
  "keyword k \<Longrightarrow> js_truthy (js_get v k) \<Longrightarrow> jsize (js_get v k) < jsize v"
  by (rule jsize_keyword) (auto simp: js_truthy_def)

lemma jsize_keyword_element:
  "keyword k \<Longrightarrow> js_get v k = JArr xs \<Longrightarrow> x \<in> set xs \<Longrightarrow> jsize x < jsize v"
  using jsize_keyword [of k v] jsize_list_member [of x xs] by simp

lemma jsize_keyword_entry:
  "keyword k \<Longrightarrow> js_truthy (js_get v k) \<Longrightarrow> (n, x) \<in> set (js_entries (js_get v k))
     \<Longrightarrow> jsize x < jsize v"
  using jsize_keyword_truthy [of k v] jsize_entries [of n x "js_get v k"] by simp

function jsonSchemaToZod :: "string_lib \<Rightarrow> jsval \<Rightarrow> failure + zod" where
  "jsonSchemaToZod lib schema =
     (if js_truthy (js_get schema ''_circular'') then Inr (ZLazy (ZObject [] Passthrough))
      else if js_truthy (js_get schema ''oneOf'')
        then (case js_get schema ''oneOf'' of
                JArr schemas \<Rightarrow> handleOneOf (jsonSchemaToZod lib) schemas
              | _ \<Rightarrow> Inl IllTyped)
      else if js_truthy (js_get schema ''anyOf'')
        then (case js_get schema ''anyOf'' of
                JArr schemas \<Rightarrow> handleAnyOf (jsonSchemaToZod lib) schemas
              | _ \<Rightarrow> Inl IllTyped)
      else if js_truthy (js_get schema ''allOf'')
        then (case js_get schema ''allOf'' of
                JArr schemas \<Rightarrow> handleAllOf (jsonSchemaToZod lib) schemas
              | _ \<Rightarrow> Inl IllTyped)
      else if \<not> js_truthy schema \<or> \<not> js_truthy (js_get schema ''type'') then Inr ZAny
      else if js_get schema ''type'' = JStr ''string'' then string_schema lib schema
      else if js_get schema ''type'' = JStr ''number''
              \<or> js_get schema ''type'' = JStr ''integer'' then number_schema schema
      else if js_get schema ''type'' = JStr ''boolean'' then Inr ZBoolean
      else if js_get schema ''type'' = JStr ''array''
        then (case (if js_truthy (js_get schema ''items'')
                    then jsonSchemaToZod lib (js_get schema ''items'') else Inr ZAny) of
                Inl e \<Rightarrow> Inl e
              | Inr itemSchema \<Rightarrow>
                  bindE (defined_number (js_get schema ''minItems'')) (\<lambda>minItems.
                  bindE (defined_number (js_get schema ''maxItems'')) (\<lambda>maxItems.
                    Inr (ZArray itemSchema minItems maxItems))))
      else if js_get schema ''type'' = JStr ''object''
        then (if \<not> js_truthy (js_get schema ''properties'') then Inr (ZRecord ZAny)
              else case mapE (\<lambda>(key, propSchema).
                           case jsonSchemaToZod lib propSchema of
                             Inl e \<Rightarrow> Inl e
                           | Inr propZod \<Rightarrow>
                               bindE (is_required (js_get schema ''required'') key)
                                 (\<lambda>req. Inr (key, if req then propZod else ZOptional propZod)))
                         (js_entries (js_get schema ''properties'')) of
                     Inl e \<Rightarrow> Inl e
                   | Inr props \<Rightarrow>
                       Inr (ZObject (fold (\<lambda>(key, propZod) shape. obj_set shape key propZod)
                                       props [])
                              Strip))
      else Inr ZAny)"
  by pat_completeness auto

termination
proof (relation "measure (\<lambda>(lib, schema). jsize schema)")
  have k: "keyword ''oneOf''" "keyword ''anyOf''" "keyword ''allOf''" "keyword ''items''"
    "keyword ''properties''"
    by (simp_all add: keyword_def array_index_def is_digit_def)
  show "wf (measure (\<lambda>(lib, schema). jsize schema))" by simp
  show "\<And>lib schema x6 x. js_get schema ''oneOf'' = JArr x6 \<Longrightarrow> x \<in> set x6 \<Longrightarrow>
      ((lib, x), lib, schema) \<in> measure (\<lambda>(lib, schema). jsize schema)"
    using k(1) by (simp add: jsize_keyword_element)
  show "\<And>lib schema x6 x. js_get schema ''anyOf'' = JArr x6 \<Longrightarrow> x \<in> set x6 \<Longrightarrow>
      ((lib, x), lib, schema) \<in> measure (\<lambda>(lib, schema). jsize schema)"
    using k(2) by (simp add: jsize_keyword_element)
  show "\<And>lib schema x6 x. js_get schema ''allOf'' = JArr x6 \<Longrightarrow> x \<in> set x6 \<Longrightarrow>
      ((lib, x), lib, schema) \<in> measure (\<lambda>(lib, schema). jsize schema)"
    using k(3) by (simp add: jsize_keyword_element)
  show "\<And>lib schema. js_truthy (js_get schema ''items'') \<Longrightarrow>
      ((lib, js_get schema ''items''), lib, schema) \<in> measure (\<lambda>(lib, schema). jsize schema)"
    using k(4) by (simp add: jsize_keyword_truthy)
  show "\<And>lib schema x xa y. \<not> \<not> js_truthy (js_get schema ''properties'') \<Longrightarrow>
      x \<in> set (js_entries (js_get schema ''properties'')) \<Longrightarrow> (xa, y) = x \<Longrightarrow>
      ((lib, y), lib, schema) \<in> measure (\<lambda>(lib, schema). jsize schema)"
    using k(5) by (auto simp: jsize_keyword_entry)
qed

declare jsonSchemaToZod.simps [simp del]


subsection \<open>Resolving references and converting to the canonical form\<close>

text \<open>
  The converter owns the specification document, the set \<open>refStack\<close> of the references
  being resolved and the cache \<open>refCache\<close> of the resolved ones. \<open>resolveRef\<close> adds the
  reference to \<open>refStack\<close> before it converts the target and removes it in \<open>finally\<close>;
  the reference was not in the set before. While the target is converted the set is
  therefore the old one with the reference, and afterwards the old one again, also when
  the conversion throws: the set is a parameter of the two functions here. The cache
  is passed along and returned, also with a thrown error. The document is a JSON value,
  a finite tree; the \<open>TypeError\<close>s of the engine carry an abridged message.
\<close>

type_synonym cache = "(string \<times> jsval) list"

type_synonym 'a conv = "(js_error + 'a) \<times> cache"

definition bindC :: "'a conv \<Rightarrow> ('a \<Rightarrow> cache \<Rightarrow> 'b conv) \<Rightarrow> 'b conv" where
  "bindC m f = (case m of (Inl e, c) \<Rightarrow> (Inl e, c) | (Inr x, c) \<Rightarrow> f x c)"

fun traverse :: "('a \<Rightarrow> cache \<Rightarrow> 'b conv) \<Rightarrow> 'a list \<Rightarrow> cache \<Rightarrow> 'b list conv" where
  "traverse f [] c = (Inr [], c)"
| "traverse f (x # xs) c =
     bindC (f x c) (\<lambda>y c'. bindC (traverse f xs c') (\<lambda>ys c''. (Inr (y # ys), c'')))"

lemma bindC_cong [fundef_cong]:
  "m = m' \<Longrightarrow> (\<And>x c. f x c = g x c) \<Longrightarrow> bindC m f = bindC m' g"
  by (simp add: bindC_def split: prod.splits sum.splits)

lemma traverse_eq:
  "(\<And>x c. x \<in> set xs \<Longrightarrow> f x c = g x c) \<Longrightarrow> traverse f xs c = traverse g xs c"
proof (induction xs arbitrary: c)
  case Nil
  show ?case by simp
next
  case (Cons x xs)
  have h: "f x c = g x c" by (rule Cons.prems) simp
  have t: "traverse f xs c' = traverse g xs c'" for c'
    by (rule Cons.IH) (simp add: Cons.prems)
  show ?case by (simp only: traverse.simps h t)
qed

lemma traverse_cong [fundef_cong]:
  "xs = ys \<Longrightarrow> c = c' \<Longrightarrow> (\<And>x c. x \<in> set ys \<Longrightarrow> f x c = g x c)
     \<Longrightarrow> traverse f xs c = traverse g ys c'"
  using traverse_eq [of ys f g c'] by blast

text \<open>The keywords copied when truthy, and those copied when not \<open>undefined\<close>.\<close>

fun copy_truthy :: "jsval \<Rightarrow> string list \<Rightarrow> (string \<times> jsval) list \<Rightarrow> (string \<times> jsval) list" where
  "copy_truthy schema [] jsonSchema = jsonSchema"
| "copy_truthy schema (k # ks) jsonSchema =
     copy_truthy schema ks
       (if js_truthy (js_get schema k) then obj_set jsonSchema k (js_get schema k)
        else jsonSchema)"

fun copy_defined :: "jsval \<Rightarrow> string list \<Rightarrow> (string \<times> jsval) list \<Rightarrow> (string \<times> jsval) list" where
  "copy_defined schema [] jsonSchema = jsonSchema"
| "copy_defined schema (k # ks) jsonSchema =
     copy_defined schema ks
       (if js_get schema k \<noteq> JUndefined then obj_set jsonSchema k (js_get schema k)
        else jsonSchema)"

text \<open>\<open>'$ref' in schema\<close> for an object or an array.\<close>

definition has_ref :: "jsval \<Rightarrow> bool" where
  "has_ref schema = (case schema of JObj kvs \<Rightarrow> ''$ref'' \<in> set (map fst kvs) | _ \<Rightarrow> False)"

definition is_primitive :: "jsval \<Rightarrow> bool" where
  "is_primitive v = (case v of JObj kvs \<Rightarrow> False | JArr xs \<Rightarrow> False | _ \<Rightarrow> True)"

text \<open>The loop of \<open>resolveRef\<close> over the parts of the reference, from the second one
  on: \<open>None\<close> when a step gives a falsy value.\<close>

fun walk :: "string \<Rightarrow> jsval \<Rightarrow> string list \<Rightarrow> js_error + jsval" where
  "walk ref current [] = Inr current"
| "walk ref current (part # parts) =
     (if current = JUndefined \<or> current = JNull
      then Inl (TypeError ''Cannot read properties of undefined'')
      else if \<not> js_truthy (js_get current part)
      then Inl (Error (''Cannot resolve reference: '' @ ref))
      else walk ref (js_get current part) parts)"

definition circular_placeholder :: "string \<Rightarrow> jsval" where
  "circular_placeholder ref =
     JObj [(''type'', JStr ''object''), (''_circular'', JBool True), (''_ref'', JStr ref)]"

text \<open>The references of a value: the strings under a \<open>$ref\<close> key.\<close>

fun refs :: "jsval \<Rightarrow> string set"
  and refs_list :: "jsval list \<Rightarrow> string set"
  and refs_props :: "(string \<times> jsval) list \<Rightarrow> string set" where
  "refs (JArr xs) = refs_list xs"
| "refs (JObj kvs) =
     (case map_of kvs ''$ref'' of Some (JStr r) \<Rightarrow> {r} | _ \<Rightarrow> {}) \<union> refs_props kvs"
| "refs JUndefined = {}"
| "refs JNull = {}"
| "refs (JBool b) = {}"
| "refs (JNum n) = {}"
| "refs (JStr s) = {}"
| "refs_list [] = {}"
| "refs_list (x # xs) = refs x \<union> refs_list xs"
| "refs_props [] = {}"
| "refs_props ((k, x) # kvs) = refs x \<union> refs_props kvs"

lemma finite_refs: "finite (refs v)" "finite (refs_list xs)" "finite (refs_props kvs)"
  by (induction v and xs and kvs rule: refs_refs_list_refs_props.induct)
     (auto split: option.splits jsval.splits)

lemma refs_list_member: "x \<in> set xs \<Longrightarrow> refs x \<subseteq> refs_list xs"
  by (induction xs) auto

lemma refs_props_member: "(k, x) \<in> set kvs \<Longrightarrow> refs x \<subseteq> refs_props kvs"
  by (induction kvs) auto

lemma refs_get: "refs (js_get v k) \<subseteq> refs v"
proof (cases v)
  case (JObj kvs)
  show ?thesis
  proof (cases "map_of kvs k")
    case None
    with JObj show ?thesis by (simp add: js_get_def)
  next
    case (Some x)
    then have "(k, x) \<in> set kvs" by (rule map_of_SomeD)
    from refs_props_member [OF this] JObj Some show ?thesis
      by (auto simp: js_get_def)
  qed
next
  case (JArr xs)
  then show ?thesis
    using refs_list_member [of _ xs] by (auto simp: js_get_def split: option.splits)
qed (auto simp: js_get_def split: option.splits)

lemma refs_entries: "(k, x) \<in> set (js_entries v) \<Longrightarrow> refs x \<subseteq> refs v"
proof (cases v)
  case (JArr xs)
  assume "(k, x) \<in> set (js_entries v)"
  with JArr have "x \<in> set xs"
    by (auto simp: js_entries_def dest: set_zip_rightD)
  with JArr show ?thesis
    using refs_list_member [of x xs] by simp
next
  case (JStr s)
  assume "(k, x) \<in> set (js_entries v)"
  with JStr obtain c where "x = JStr [c]"
    by (auto simp: js_entries_def dest!: set_zip_rightD)
  then show ?thesis by simp
next
  case (JObj kvs)
  assume "(k, x) \<in> set (js_entries v)"
  with JObj show ?thesis
    using refs_props_member [of k x kvs] by (auto simp: js_entries_def)
qed (auto simp: js_entries_def)

lemma refs_walk: "walk r v parts = Inr t \<Longrightarrow> refs t \<subseteq> refs v"
proof (induction parts arbitrary: v)
  case Nil
  then show ?case by simp
next
  case (Cons part parts)
  from Cons.prems have "walk r (js_get v part) parts = Inr t"
    by (simp split: if_splits)
  from Cons.IH [OF this] refs_get [of v part] show ?case by blast
qed

lemma refs_has_ref: "has_ref schema \<Longrightarrow> js_get schema ''$ref'' = JStr r \<Longrightarrow> r \<in> refs schema"
  by (cases schema) (auto simp: has_ref_def js_get_def split: option.splits)

definition map_keyword ::
  "(jsval \<Rightarrow> cache \<Rightarrow> jsval conv) \<Rightarrow> jsval \<Rightarrow> string \<Rightarrow> (string \<times> jsval) list \<Rightarrow> cache
     \<Rightarrow> (string \<times> jsval) list conv" where
  "map_keyword f schema k jsonSchema c =
     (if \<not> js_truthy (js_get schema k) then (Inr jsonSchema, c)
      else case js_get schema k of
        JArr xs \<Rightarrow> bindC (traverse f xs c) (\<lambda>rs c'. (Inr (obj_set jsonSchema k (JArr rs)), c'))
      | _ \<Rightarrow> (Inl (TypeError (''schema.'' @ k @ ''.map is not a function'')), c))"

lemma map_keyword_cong [fundef_cong]:
  assumes "\<And>xs x c. js_get schema k = JArr xs \<Longrightarrow> x \<in> set xs \<Longrightarrow> f x c = g x c"
  shows "map_keyword f schema k jsonSchema c = map_keyword g schema k jsonSchema c"
proof (cases "js_get schema k")
  case (JArr xs)
  have "traverse f xs c = traverse g xs c"
    by (rule traverse_eq) (rule assms [OF JArr])
  with JArr show ?thesis by (simp add: map_keyword_def)
qed (simp_all add: map_keyword_def)

definition copied :: "jsval \<Rightarrow> (string \<times> jsval) list" where
  "copied schema =
     copy_defined schema [''minimum'', ''maximum'', ''minLength'', ''maxLength'', ''default'']
       (copy_truthy schema [''type'', ''description'', ''format'', ''enum'', ''pattern''] [])"

definition ref_set :: "jsval \<Rightarrow> string set" where
  "ref_set ref = (case ref of JStr r \<Rightarrow> {r} | _ \<Rightarrow> {})"

function openApiToJsonSchema :: "jsval \<Rightarrow> string list \<Rightarrow> cache \<Rightarrow> jsval \<Rightarrow> jsval conv"
  and resolveRef :: "jsval \<Rightarrow> string list \<Rightarrow> cache \<Rightarrow> jsval \<Rightarrow> jsval conv" where
  "openApiToJsonSchema spec refStack refCache schema =
     (if \<not> js_truthy schema then (Inr (JObj [(''type'', JStr ''object'')]), refCache)
      else if is_primitive schema
      then (Inl (TypeError ''Cannot use in operator to search for $ref''), refCache)
      else if has_ref schema then resolveRef spec refStack refCache (js_get schema ''$ref'')
      else
        bindC (if js_get schema ''type'' = JStr ''object''
                  \<and> js_truthy (js_get schema ''properties'')
               then bindC (traverse
                             (\<lambda>(key, value) c.
                                bindC (openApiToJsonSchema spec refStack c value)
                                  (\<lambda>r c'. (Inr (key, r), c')))
                             (js_entries (js_get schema ''properties'')) refCache)
                      (\<lambda>props c.
                         (Inr (obj_set (copied schema) ''properties''
                                 (JObj (fold (\<lambda>(key, r) properties. obj_set properties key r)
                                          props []))), c))
               else (Inr (copied schema), refCache))
        (\<lambda>jsonSchema c.
        bindC (let jsonSchema =
                     (if js_get schema ''type'' = JStr ''object''
                         \<and> js_truthy (js_get schema ''required'')
                      then obj_set jsonSchema ''required'' (js_get schema ''required'')
                      else jsonSchema)
               in if js_get schema ''type'' = JStr ''object''
                     \<and> js_get schema ''additionalProperties'' \<noteq> JUndefined
                  then if js_get schema ''additionalProperties'' = JBool True
                       then (Inr (obj_set jsonSchema ''additionalProperties'' (JBool True)), c)
                       else bindC (openApiToJsonSchema spec refStack c
                                     (js_get schema ''additionalProperties''))
                              (\<lambda>r c'. (Inr (obj_set jsonSchema ''additionalProperties'' r), c'))
                  else (Inr jsonSchema, c))
        (\<lambda>jsonSchema c.
        bindC (if js_get schema ''type'' = JStr ''array'' \<and> js_truthy (js_get schema ''items'')
               then bindC (openApiToJsonSchema spec refStack c (js_get schema ''items''))
                      (\<lambda>r c'. (Inr (obj_set jsonSchema ''items'' r), c'))
               else (Inr jsonSchema, c))
        (\<lambda>jsonSchema c.
        bindC (map_keyword (\<lambda>s c'. openApiToJsonSchema spec refStack c' s) schema ''oneOf''
                 (if js_get schema ''type'' = JStr ''array''
                  then copy_defined schema [''minItems'', ''maxItems''] jsonSchema
                  else jsonSchema) c)
        (\<lambda>jsonSchema c.
        bindC (map_keyword (\<lambda>s c'. openApiToJsonSchema spec refStack c' s) schema ''anyOf''
                 jsonSchema c)
        (\<lambda>jsonSchema c.
        bindC (map_keyword (\<lambda>s c'. openApiToJsonSchema spec refStack c' s) schema ''allOf''
                 jsonSchema c)
        (\<lambda>jsonSchema c. (Inr (JObj jsonSchema), c))))))))"
| "resolveRef spec refStack refCache ref =
     (case ref of
        JStr r \<Rightarrow>
          if r \<in> set refStack then (Inr (circular_placeholder r), refCache)
          else if r \<in> set (map fst refCache) then (Inr (js_get (JObj refCache) r), refCache)
          else (case walk r spec (tl (split CHR ''/'' r)) of
                  Inl e \<Rightarrow> (Inl e, refCache)
                | Inr current \<Rightarrow>
                    bindC (openApiToJsonSchema spec (r # refStack) refCache current)
                      (\<lambda>result c. (Inr result, obj_set c r result)))
      | _ \<Rightarrow> (Inl (TypeError ''ref.split is not a function''), refCache))"
  by pat_completeness auto

lemma refs_keyword_entry:
  "(n, x) \<in> set (js_entries (js_get v k)) \<Longrightarrow> refs x \<subseteq> refs v"
  using refs_entries [of n x "js_get v k"] refs_get [of v k] by blast

lemma refs_keyword_element: "js_get v k = JArr xs \<Longrightarrow> x \<in> set xs \<Longrightarrow> refs x \<subseteq> refs v"
  using refs_list_member [of x xs] refs_get [of v k] by auto

text \<open>The order of the calls: a call of \<open>resolveRef\<close> for a reference that is not being
  resolved takes one of the finitely many references of the document out of play; the
  other calls keep them and go to a part of the schema.\<close>

definition call_order ::
  "((jsval \<times> string list \<times> cache \<times> jsval) + (jsval \<times> string list \<times> cache \<times> jsval)) rel" where
  "call_order = inv_image (less_than <*lex*> less_than)
     (\<lambda>x. case x of
        Inl (spec, refStack, refCache, schema) \<Rightarrow>
          (card ((refs spec \<union> refs schema) - set refStack), Suc (jsize schema))
      | Inr (spec, refStack, refCache, ref) \<Rightarrow>
          (card ((refs spec \<union> ref_set ref) - set refStack), 0))"

lemma wf_call_order: "wf call_order"
  unfolding call_order_def by (intro wf_inv_image wf_lex_prod wf_less_than)

lemma card_refs_mono:
  "A \<subseteq> refs spec \<union> refs schema
     \<Longrightarrow> card ((refs spec \<union> A) - S) \<le> card ((refs spec \<union> refs schema) - S)"
  by (rule card_mono) (auto simp: finite_refs)

lemma call_part:
  assumes "jsize x < jsize schema" and "refs x \<subseteq> refs schema"
  shows "(Inl (spec, refStack, c, x), Inl (spec, refStack, c', schema)) \<in> call_order"
proof -
  have "card ((refs spec \<union> refs x) - set refStack)
          \<le> card ((refs spec \<union> refs schema) - set refStack)"
    by (rule card_refs_mono) (use assms(2) in blast)
  with assms(1) show ?thesis by (auto simp: call_order_def)
qed

lemma call_ref:
  assumes "has_ref schema"
  shows "(Inr (spec, refStack, c, js_get schema ''$ref''), Inl (spec, refStack, c', schema))
           \<in> call_order"
proof -
  have "ref_set (js_get schema ''$ref'') \<subseteq> refs schema"
    using refs_has_ref [OF assms] by (auto simp: ref_set_def split: jsval.splits)
  then have "card ((refs spec \<union> ref_set (js_get schema ''$ref'')) - set refStack)
          \<le> card ((refs spec \<union> refs schema) - set refStack)"
    by (intro card_refs_mono) blast
  then show ?thesis by (auto simp: call_order_def)
qed

lemma call_target:
  assumes "r \<notin> set refStack" and "walk r spec parts = Inr current"
  shows "(Inl (spec, r # refStack, c, current), Inr (spec, refStack, c', JStr r)) \<in> call_order"
proof -
  have "refs current \<subseteq> refs spec" by (rule refs_walk) (rule assms(2))
  then have "(refs spec \<union> refs current) - set (r # refStack)
               \<subset> (refs spec \<union> ref_set (JStr r)) - set refStack"
    using assms(1) by (auto simp: ref_set_def)
  moreover have "finite ((refs spec \<union> ref_set (JStr r)) - set refStack)"
    by (simp add: finite_refs ref_set_def)
  ultimately have "card ((refs spec \<union> refs current) - set (r # refStack))
               < card ((refs spec \<union> ref_set (JStr r)) - set refStack)"
    by (rule psubset_card_mono [rotated])
  then show ?thesis by (simp add: call_order_def)
qed

lemma schema_keywords: "keyword ''properties''" "keyword ''additionalProperties''"
  "keyword ''items''" "keyword ''oneOf''" "keyword ''anyOf''" "keyword ''allOf''"
  by (simp_all add: keyword_def array_index_def is_digit_def)

lemma call_keyword:
  "keyword k \<Longrightarrow> js_get schema k \<noteq> JUndefined
     \<Longrightarrow> (Inl (spec, refStack, c, js_get schema k), Inl (spec, refStack, c', schema))
           \<in> call_order"
  by (rule call_part) (simp_all add: jsize_keyword refs_get)

lemma call_truthy:
  "keyword k \<Longrightarrow> js_truthy (js_get schema k)
     \<Longrightarrow> (Inl (spec, refStack, c, js_get schema k), Inl (spec, refStack, c', schema))
           \<in> call_order"
  by (rule call_part) (simp_all add: jsize_keyword_truthy refs_get)

lemma call_element:
  "keyword k \<Longrightarrow> js_get schema k = JArr xs \<Longrightarrow> x \<in> set xs
     \<Longrightarrow> (Inl (spec, refStack, c, x), Inl (spec, refStack, c', schema)) \<in> call_order"
  by (rule call_part) (simp_all add: jsize_keyword_element refs_keyword_element)

lemma call_entry:
  "keyword k \<Longrightarrow> js_truthy (js_get schema k) \<Longrightarrow> (n, x) \<in> set (js_entries (js_get schema k))
     \<Longrightarrow> (Inl (spec, refStack, c, x), Inl (spec, refStack, c', schema)) \<in> call_order"
  by (rule call_part) (simp_all add: jsize_keyword_entry refs_keyword_entry)

lemma openApiToJsonSchema_total: "All openApiToJsonSchema_resolveRef_dom"
proof (relation call_order)
  show "wf call_order" by (rule wf_call_order)
qed (auto intro: call_ref call_target call_keyword call_truthy call_element call_entry
       schema_keywords)

termination openApiToJsonSchema
  by (rule openApiToJsonSchema_total)

declare openApiToJsonSchema.simps [simp del] resolveRef.simps [simp del]


subsection \<open>Notions used in the statements\<close>

text \<open>The schema has a keyword that \<open>jsonSchemaToZod\<close> handles before it looks at
  \<open>type\<close>.\<close>

definition composite :: "jsval \<Rightarrow> bool" where
  "composite schema \<longleftrightarrow>
     js_truthy (js_get schema ''_circular'') \<or> js_truthy (js_get schema ''oneOf'')
     \<or> js_truthy (js_get schema ''anyOf'') \<or> js_truthy (js_get schema ''allOf'')"

text \<open>The key is listed in the \<open>required\<close> array of the schema.\<close>

definition required_key :: "jsval \<Rightarrow> string \<Rightarrow> bool" where
  "required_key schema key =
     (case js_get schema ''required'' of JArr xs \<Rightarrow> JStr key \<in> set xs | _ \<Rightarrow> False)"

text \<open>The validator compiled from a schema accepts a value.\<close>

definition schema_accepts :: "string_lib \<Rightarrow> jsval \<Rightarrow> jsval \<Rightarrow> bool" where
  "schema_accepts lib schema v =
     (case jsonSchemaToZod lib schema of Inr z \<Rightarrow> accepts lib z v | Inl e \<Rightarrow> False)"

text \<open>The status and the value of a result, without its issues.\<close>

definition core :: "parsed \<Rightarrow> status \<times> jsval" where
  "core r = (fst r, fst (snd r))"




section \<open>Tool dispatcher (index.js)\<close>

text \<open>
  The handler of a tool. The HTTP client is a dependency of the server
  (\<open>deps.httpClient\<close>); \<open>executor\<close> is the outcome of the promise that its
  \<open>executeToolRequest\<close> returns, and \<open>stringify\<close> is
  \<open>JSON.stringify(_, null, 2)\<close>. The result is the text of the single content item,
  with the list of the calls of the request executor that were made. The handler has no
  result in the model (\<open>None\<close>) when a schema of the tool is \<open>IllTyped\<close>.
\<close>

record handler_result =
  content_text :: string
  executor_calls :: "(tool \<times> jsval) list"

definition seg_string :: "seg \<Rightarrow> string" where
  "seg_string s = (case s of Key k \<Rightarrow> k | Index i \<Rightarrow> dec_nat i)"

text \<open>\<open>error.errors.map(e => `${e.path.join('.')}: ${e.message}`).join(', ')\<close>.\<close>

definition format_issues :: "issue list \<Rightarrow> string" where
  "format_issues errors =
     join '', '' (map (\<lambda>(path, msg). join ''.'' (map seg_string path) @ '': '' @ msg) errors)"

text \<open>\<open>error instanceof Error ? error.message : String(error)\<close>.\<close>

definition errorMessage :: "thrown \<Rightarrow> string" where
  "errorMessage error = (case error of Err e \<Rightarrow> message e | Val v \<Rightarrow> js_String v)"

definition createToolHandler ::
    "string_lib \<Rightarrow> (jsval \<Rightarrow> string) \<Rightarrow> (tool \<Rightarrow> jsval \<Rightarrow> thrown + jsval) \<Rightarrow> tool \<Rightarrow> jsval
       \<Rightarrow> handler_result option" where
  "createToolHandler lib stringify executor t arguments =
     (case jsonSchemaToZod lib (inputSchema t) of
        Inl IllTyped \<Rightarrow> None
      | Inl (Throws error) \<Rightarrow>
          Some \<lparr>content_text = ''Error: '' @ errorMessage (Err error), executor_calls = []\<rparr>
      | Inr inputValidator \<Rightarrow>
          (case parse lib inputValidator (if js_truthy arguments then arguments else JObj []) of
             Inl errors \<Rightarrow>
               Some \<lparr>content_text = ''Input validation error: '' @ format_issues errors,
                     executor_calls = []\<rparr>
           | Inr validatedInput \<Rightarrow>
               (case executor t validatedInput of
                  Inl error \<Rightarrow>
                    Some \<lparr>content_text = ''Error: '' @ errorMessage error,
                          executor_calls = [(t, validatedInput)]\<rparr>
                | Inr response \<Rightarrow>
                    (case jsonSchemaToZod lib (outputSchema t) of
                       Inl IllTyped \<Rightarrow> None
                     | Inl (Throws error) \<Rightarrow>
                         Some \<lparr>content_text = ''Error: '' @ errorMessage (Err error),
                               executor_calls = [(t, validatedInput)]\<rparr>
                     | Inr outputValidator \<Rightarrow>
                         (let validatedOutput =
                                (case parse lib outputValidator response of
                                   Inr out \<Rightarrow> out
                                 | Inl errors \<Rightarrow> response)
                          in Some \<lparr>content_text = stringify validatedOutput,
                                   executor_calls = [(t, validatedInput)]\<rparr>)))))"


section \<open>Scenarios\<close>

text \<open>Concrete configurations and runs, used to exercise the theorems.\<close>

definition four_calls_opts :: rl_options where
  "four_calls_opts = \<lparr>opt_enabled = None, opt_intervalMs = Some 10,
                       opt_maxConcurrent = Some 2, opt_maxQueueSize = None\<rparr>"

definition four_calls_config :: rl_config where
  "four_calls_config = \<lparr>enabled = True, intervalMs = 10, maxConcurrent = 2, maxQueueSize = 10\<rparr>"

definition four_calls :: "nat event list" where
  "four_calls = [Execute 1, Execute 2, Execute 3, Execute 4, Resume, Resume, Resume,
                 Advance 10, Resume, Resume, Resume, Advance 10, Resume, Advance 50, Resume]"

definition full_queue_config :: rl_config where
  "full_queue_config = \<lparr>enabled = True, intervalMs = 100, maxConcurrent = 1, maxQueueSize = 1\<rparr>"

definition full_queue_opts :: rl_options where
  "full_queue_opts = \<lparr>opt_enabled = None, opt_intervalMs = Some 100,
                        opt_maxConcurrent = Some 1, opt_maxQueueSize = Some 1\<rparr>"

definition full_queue :: "nat event list" where
  "full_queue = [Execute 1, Resume, Resume, Resume, Advance 5, Execute 2]"

definition after_rejection :: "nat event list" where
  "after_rejection = [Advance 95, Resume, Resume, Resume, Settle 1 (Inr (JStr ''1'')), Finally 1,
                      Advance 50, Resume, Resume, Resume]"

definition zero_interval_opts :: rl_options where
  "zero_interval_opts = \<lparr>opt_enabled = None, opt_intervalMs = Some 0,
                          opt_maxConcurrent = Some 1, opt_maxQueueSize = Some 1\<rparr>"

definition zero_interval_config :: rl_config where
  "zero_interval_config = \<lparr>enabled = True, intervalMs = 0, maxConcurrent = 1, maxQueueSize = 1\<rparr>"









definition get_user_tool :: tool where
  "get_user_tool =
     \<lparr>tool_name = ''users_getUser'', service = ''users'', scope = ''read'',
      http = \<lparr>http_method = ''get'', http_path = ''/v3/users/{id}'',
               http_parameters = Some
                 \<lparr>path_params = Some [(''id'', \<lparr>param_name = ''id'', required = True\<rparr>)],
                  query_params = None, header_params = None\<rparr>,
               requestBody = None\<rparr>,
      inputSchema = JObj [(''type'', JStr ''object''),
                          (''properties'', JObj [(''id'', JObj [(''type'', JStr ''string'')])]),
                          (''required'', JArr [JStr ''id'']),
                          (''additionalProperties'', JBool False)],
      outputSchema = JObj [(''type'', JStr ''object'')]\<rparr>"

definition demo_lib :: string_lib where
  "demo_lib = \<lparr>regex_valid = (\<lambda>r. True), regex_test = (\<lambda>r s. True),
               is_email = (\<lambda>s. CHR ''@'' \<in> set s), is_uuid = (\<lambda>s. True),
               is_datetime = (\<lambda>s. True), is_date = (\<lambda>s. True)\<rparr>"

definition person_properties :: "(string \<times> jsval) list" where
  "person_properties =
     [(''name'', JObj [(''type'', JStr ''string'')]),
      (''age'', JObj [(''type'', JStr ''integer'')]),
      (''email'', JObj [(''type'', JStr ''string''), (''format'', JStr ''email'')])]"

definition person_schema :: jsval where
  "person_schema = JObj [(''type'', JStr ''object''),
                         (''properties'', JObj person_properties),
                         (''required'', JArr [JStr ''name'', JStr ''email''])]"

definition person_validator :: zod where
  "person_validator = ZObject [(''name'', ZString []),
                               (''age'', ZOptional (ZNumber [IsInt])),
                               (''email'', ZString [Email])] Strip"

definition john :: "(string \<times> jsval) list" where
  "john = [(''name'', JStr ''John''), (''email'', JStr ''john@example.com''),
           (''nickname'', JStr ''J'')]"

definition undeclared_required_schema :: jsval where
  "undeclared_required_schema =
     JObj [(''type'', JStr ''object''),
           (''properties'', JObj [(''a'', JObj [(''type'', JStr ''string'')])]),
           (''required'', JArr [JStr ''b''])]"

definition untyped_required_schema :: jsval where
  "untyped_required_schema =
     JObj [(''type'', JStr ''object''),
           (''properties'', JObj [(''a'', JObj [])]),
           (''required'', JArr [JStr ''a''])]"

definition allOf_tool :: tool where
  "allOf_tool =
     \<lparr>tool_name = ''users_getUser'', service = ''users'', scope = ''read'',
      http = \<lparr>http_method = ''get'', http_path = ''/v3/users/{id}'',
               http_parameters = Some
                 \<lparr>path_params = Some [(''id'', \<lparr>param_name = ''id'', required = True\<rparr>)],
                  query_params = None, header_params = None\<rparr>,
               requestBody = None\<rparr>,
      inputSchema = JObj [(''type'', JStr ''object''),
                          (''properties'', JObj [(''id'', JObj [(''type'', JStr ''string'')])]),
                          (''allOf'', JArr [JObj [(''required'', JArr [JStr ''id''])]])],
      outputSchema = JObj [(''type'', JStr ''object'')]\<rparr>"

definition extra_args :: jsval where
  "extra_args = JObj [(''id'', JStr ''7''), (''extra'', JStr ''x'')]"





section \<open>Properties of the rate limiter\<close>

lemmas rl_defs = RateLimiter_new_def nullish_def default_env_def init_def execute_def
  processQueue_def loop_head_def waitForRateLimit_def waitForConcurrencySlot_def dequeue_def
  resume_def due_def settle_def finally_cb_def clearQueue_def executeRequest_def
  createQueueFullError_def estimatedWaitTime_def ceil_div_def Let_def

lemmas scenario_defs = four_calls_opts_def four_calls_config_def four_calls_def

lemmas scenario2_defs = full_queue_config_def full_queue_opts_def full_queue_def after_rejection_def

lemma RateLimiter_new_valid:
  "RateLimiter_new config env = Inr c \<Longrightarrow>
     0 \<le> intervalMs c \<and> 1 \<le> maxConcurrent c \<and> 0 \<le> maxQueueSize c"
  by (auto simp: RateLimiter_new_def Let_def split: if_splits)

lemma rl_inv_init: "0 \<le> maxQueueSize c \<Longrightarrow> 1 \<le> maxConcurrent c \<Longrightarrow> rl_inv c (init t0)"
  by (simp add: rl_inv_def init_def)

lemma length_remove1_mem: "x \<in> set xs \<Longrightarrow> int (length (remove1 x xs)) = int (length xs) - 1"
  by (induction xs) auto

lemma rl_inv_loop_head: "rl_inv c s \<Longrightarrow> drain s \<noteq> Idle \<Longrightarrow> drain s \<noteq> AwaitSlot None \<or> requestQueue s = [] \<Longrightarrow> rl_inv c (loop_head c s)"
  by (auto simp: rl_inv_def loop_head_def waitForRateLimit_def Let_def)

lemma rl_inv_step:
  assumes "enabled c" and "rl_inv c s"
  shows "rl_inv c (step c e s)"
proof (cases e)
  case (Execute fn)
  then show ?thesis using assms
    by (auto simp: rl_inv_def execute_def processQueue_def loop_head_def waitForRateLimit_def Let_def)
next
  case ClearQueue
  then show ?thesis using assms
    by (auto simp: rl_inv_def clearQueue_def intro: order_trans [of 0 "int (length (requestQueue s))"])
next
  case (Advance d)
  then show ?thesis using assms by (auto simp: rl_inv_def)
next
  case Resume
  then show ?thesis using assms
    by (auto simp: rl_inv_def resume_def due_def waitForConcurrencySlot_def dequeue_def
        loop_head_def waitForRateLimit_def Let_def split: drain.splits option.splits list.splits)
next
  case (Settle fn r)
  then show ?thesis using assms
    by (auto simp: rl_inv_def settle_def length_remove1_mem)
next
  case (Finally fn)
  then show ?thesis using assms
    by (auto simp: rl_inv_def finally_cb_def length_remove1_mem)
qed

lemma rl_inv_run: "enabled c \<Longrightarrow> rl_inv c s \<Longrightarrow> rl_inv c (run c es s)"
  by (induction es arbitrary: s) (auto simp: rl_inv_step simp del: step.simps)








lemma origin_step:
  "fst ` set (dispatched (step c e s)) \<union> execute_fn ` set (requestQueue (step c e s))
     \<subseteq> fst ` set (dispatched s) \<union> execute_fn ` set (requestQueue s)
         \<union> (case e of Execute fn \<Rightarrow> {fn} | _ \<Rightarrow> {})"
proof (cases e)
  case (Execute fn)
  then show ?thesis
    by (auto simp: execute_def processQueue_def loop_head_def waitForRateLimit_def Let_def)
next
  case ClearQueue
  then show ?thesis by (auto simp: clearQueue_def)
next
  case (Advance d)
  then show ?thesis by auto
next
  case Resume
  then show ?thesis
    by (auto simp: resume_def due_def waitForConcurrencySlot_def dequeue_def
        loop_head_def waitForRateLimit_def Let_def
        split: drain.splits option.splits list.splits)
next
  case (Settle fn r)
  then show ?thesis by (auto simp: settle_def)
next
  case (Finally fn)
  then show ?thesis by (auto simp: finally_cb_def)
qed

lemma origin_run:
  "fn \<in> fst ` set (dispatched (run c es s)) \<union> execute_fn ` set (requestQueue (run c es s))
   \<Longrightarrow> fn \<in> fst ` set (dispatched s) \<union> execute_fn ` set (requestQueue s)
         \<or> Execute fn \<in> set es"
proof (induction es arbitrary: s)
  case Nil
  then show ?case by simp
next
  case (Cons e es)
  from Cons.prems have "fn \<in> fst ` set (dispatched (run c es (step c e s)))
      \<union> execute_fn ` set (requestQueue (run c es (step c e s)))" by simp
  from Cons.IH [OF this] show ?case
  proof
    assume "fn \<in> fst ` set (dispatched (step c e s)) \<union> execute_fn ` set (requestQueue (step c e s))"
    with origin_step [of c e s] have "fn \<in> fst ` set (dispatched s) \<union> execute_fn ` set (requestQueue s)
         \<union> (case e of Execute fn \<Rightarrow> {fn} | _ \<Rightarrow> {})" by blast
    then show ?thesis by (cases e) auto
  next
    assume "Execute fn \<in> set es"
    then show ?thesis by simp
  qed
qed

text \<open>
  Claim C1. From a freshly constructed enabled limiter, after every sequence of events
  (calls of \<open>execute\<close> and \<open>clearQueue\<close>, steps of the drain loop
  \<open>processQueue\<close>, settlements, clock ticks) the queue holds at most
  \<open>maxQueueSize\<close> requests, the counter \<open>concurrentRequests\<close> is at most
  \<open>maxConcurrent\<close>, and at most \<open>maxConcurrent\<close> work items are in progress.
  The event list is arbitrary, so the bounds hold after every prefix of every run, whatever
  the number of simultaneous \<open>execute\<close> calls.
\<close>

theorem C1_limiter_invariant:
  assumes "RateLimiter_new config env = Inr c" and "enabled c"
  shows "int (length (requestQueue (run c es (init t0)))) \<le> maxQueueSize c
       \<and> concurrentRequests (run c es (init t0)) \<le> maxConcurrent c
       \<and> int (length (running (run c es (init t0)) @ direct (run c es (init t0))))
           \<le> maxConcurrent c"
proof -
  from assms(1) have "rl_inv c (init t0)"
    using RateLimiter_new_valid rl_inv_init by blast
  with assms(2) have "rl_inv c (run c es (init t0))" by (rule rl_inv_run)
  then show ?thesis by (auto simp: rl_inv_def)
qed

text \<open>Four calls against \<open>maxConcurrent = 2\<close>: two work items run, two wait.\<close>

theorem C1_limiter_invariant_witness:
  "RateLimiter_new four_calls_opts default_env = Inr four_calls_config
   \<and> enabled four_calls_config
   \<and> running (run four_calls_config four_calls (init 1000)) = [1, 2]
   \<and> map execute_fn (requestQueue (run four_calls_config four_calls (init 1000))) = [3, 4]
   \<and> int (length (requestQueue (run four_calls_config four_calls (init 1000))))
        \<le> maxQueueSize four_calls_config
   \<and> concurrentRequests (run four_calls_config four_calls (init 1000))
        \<le> maxConcurrent four_calls_config
   \<and> int (length (running (run four_calls_config four_calls (init 1000))
                     @ direct (run four_calls_config four_calls (init 1000))))
        \<le> maxConcurrent four_calls_config"
proof -
  have h: "RateLimiter_new four_calls_opts default_env = Inr four_calls_config"
    by (simp add: scenario_defs RateLimiter_new_def nullish_def default_env_def)
  have e: "enabled four_calls_config"
    by (simp add: scenario_defs)
  have r: "running (run four_calls_config four_calls (init 1000)) = [1, 2]"
    by (simp add: scenario_defs rl_defs)
  have q: "map execute_fn (requestQueue (run four_calls_config four_calls (init 1000))) = [3, 4]"
    by (simp add: scenario_defs rl_defs)
  from C1_limiter_invariant [OF h e, of four_calls 1000] h e r q show ?thesis
    by blast
qed





lemma estimatedWaitTime_sign:
  assumes "0 \<le> intervalMs c"
  shows "0 \<le> estimatedWaitTime c s \<and> (0 < estimatedWaitTime c s \<longleftrightarrow> 0 < intervalMs c)"
  using assms by (cases "intervalMs c = 0") (auto simp: estimatedWaitTime_def Let_def max_def)

text \<open>
  Claim C2, as amended. When the queue of an enabled limiter holds \<open>maxQueueSize\<close>
  requests (or more), a further \<open>execute\<close> changes nothing but the outcome of that
  call: it is rejected with the queue-full error, whose \<open>queueLength\<close> is the current
  queue length, whose \<open>maxQueueSize\<close> is the configured one and whose
  \<open>retryAfter\<close> is
  \<open>max (ceil (queueLength / maxConcurrent) * intervalMs) intervalMs\<close>: never negative,
  and positive exactly when \<open>intervalMs\<close> is positive. The rejected work item is never
  invoked, whatever happens later (unless it is submitted again).
\<close>

theorem C2_queue_full_rejects:
  assumes "RateLimiter_new config env = Inr c" and "enabled c"
    and "maxQueueSize c \<le> int (length (requestQueue s))"
    and "fn \<notin> fst ` set (dispatched s)" and "fn \<notin> execute_fn ` set (requestQueue s)"
    and "Execute fn \<notin> set es"
  shows "execute c fn s = s\<lparr>settled := settled s @ [(fn, Inl (Err (createQueueFullError c s)))]\<rparr>
       \<and> retryAfter (createQueueFullError c s) = Some (estimatedWaitTime c s)
       \<and> estimatedWaitTime c s
           = max (ceil_div (int (length (requestQueue s))) (maxConcurrent c) * intervalMs c)
               (intervalMs c)
       \<and> 0 \<le> estimatedWaitTime c s
       \<and> (0 < estimatedWaitTime c s \<longleftrightarrow> 0 < intervalMs c)
       \<and> queueLength (createQueueFullError c s) = Some (int (length (requestQueue s)))
       \<and> error_maxQueueSize (createQueueFullError c s) = Some (maxQueueSize c)
       \<and> fn \<notin> fst ` set (dispatched (run c es (execute c fn s)))"
proof -
  have ex: "execute c fn s
      = s\<lparr>settled := settled s @ [(fn, Inl (Err (createQueueFullError c s)))]\<rparr>"
    using assms(2,3) by (simp add: execute_def)
  have "0 \<le> intervalMs c"
    using assms(1) RateLimiter_new_valid by blast
  then have sg: "0 \<le> estimatedWaitTime c s \<and> (0 < estimatedWaitTime c s \<longleftrightarrow> 0 < intervalMs c)"
    by (rule estimatedWaitTime_sign)
  have never: "fn \<notin> fst ` set (dispatched (run c es (execute c fn s)))"
  proof
    assume "fn \<in> fst ` set (dispatched (run c es (execute c fn s)))"
    then have "fn \<in> fst ` set (dispatched (execute c fn s))
                  \<union> execute_fn ` set (requestQueue (execute c fn s))
               \<or> Execute fn \<in> set es"
      using origin_run [of fn c es "execute c fn s"] by blast
    with assms(4,5,6) ex show False by simp
  qed
  show ?thesis
    using ex sg never
    by (simp add: createQueueFullError_def estimatedWaitTime_def Let_def)
qed

text \<open>The scenario of the test suite: one request in flight, one queued, the third
  rejected.\<close>

theorem C2_queue_full_rejects_witness:
  "RateLimiter_new full_queue_opts default_env = Inr full_queue_config
   \<and> enabled full_queue_config
   \<and> map execute_fn (requestQueue (run full_queue_config full_queue (init 1000))) = [2]
   \<and> maxQueueSize full_queue_config
        \<le> int (length (requestQueue (run full_queue_config full_queue (init 1000))))
   \<and> settled (execute full_queue_config 3 (run full_queue_config full_queue (init 1000)))
       = [(3, Inl (Err (RateLimitQueueFullError
            ''Rate limit queue is full (1/1). Please retry after 100ms'' 100 1 1)))]
   \<and> map fst (dispatched (run full_queue_config after_rejection
         (execute full_queue_config 3 (run full_queue_config full_queue (init 1000))))) = [1, 2]
   \<and> 3 \<notin> fst ` set (dispatched (run full_queue_config after_rejection
         (execute full_queue_config 3 (run full_queue_config full_queue (init 1000)))))"
proof -
  have h: "RateLimiter_new full_queue_opts default_env = Inr full_queue_config"
    by (simp add: scenario2_defs RateLimiter_new_def nullish_def default_env_def)
  have e: "enabled full_queue_config"
    by (simp add: scenario2_defs)
  have q: "map execute_fn (requestQueue (run full_queue_config full_queue (init 1000))) = [2]"
    by (simp add: scenario2_defs rl_defs)
  have f: "maxQueueSize full_queue_config
        \<le> int (length (requestQueue (run full_queue_config full_queue (init 1000))))"
    by (simp add: scenario2_defs rl_defs)
  have d: "3 \<notin> fst ` set (dispatched (run full_queue_config full_queue (init 1000)))"
    by (simp add: scenario2_defs rl_defs)
  have n: "3 \<notin> execute_fn ` set (requestQueue (run full_queue_config full_queue (init 1000)))"
    by (simp add: scenario2_defs rl_defs)
  have a: "Execute 3 \<notin> set after_rejection"
    by (simp add: scenario2_defs)
  have s: "settled (execute full_queue_config 3 (run full_queue_config full_queue (init 1000)))
       = [(3, Inl (Err (RateLimitQueueFullError
            ''Rate limit queue is full (1/1). Please retry after 100ms'' 100 1 1)))]"
    by (simp add: scenario2_defs rl_defs dec_int_def dec_nat.simps)
  have m: "map fst (dispatched (run full_queue_config after_rejection
         (execute full_queue_config 3 (run full_queue_config full_queue (init 1000))))) = [1, 2]"
    by (simp add: scenario2_defs rl_defs)
  from C2_queue_full_rejects [OF h e f d n a] h e q f s m show ?thesis
    by blast
qed

text \<open>Claim C2 as stated fails for \<open>intervalMs = 0\<close>, which the constructor
  accepts: the queue holds \<open>maxQueueSize = 1\<close> request and the next call is rejected
  with \<open>retryAfter = 0\<close>.\<close>

theorem C2_retryAfter_counterexample:
  "RateLimiter_new zero_interval_opts default_env = Inr zero_interval_config
   \<and> map execute_fn (requestQueue (run zero_interval_config [Execute 1] (init 1000))) = [1 :: nat]
   \<and> settled (run zero_interval_config [Execute 1, Execute 2] (init 1000))
       = [(2, Inl (Err (RateLimitQueueFullError
            ''Rate limit queue is full (1/1). Please retry after 0ms'' 0 1 1)))]
   \<and> retryAfter (RateLimitQueueFullError
            ''Rate limit queue is full (1/1). Please retry after 0ms'' 0 1 1) = Some 0"
  by (simp add: zero_interval_opts_def zero_interval_config_def rl_defs dec_int_def dec_nat.simps)








section \<open>Properties of the request executor\<close>










lemma keys_obj_set:
  "map fst (obj_set kvs k v) = (if k \<in> set (map fst kvs) then map fst kvs else map fst kvs @ [k])"
  by (induction kvs) force+











section \<open>Properties of the validators\<close>

lemma check_string_path: "check_string lib p s c = [] \<longleftrightarrow> check_string lib q s c = []"
  by (simp add: check_string_def split: string_check.splits)

lemma check_number_path: "check_number p n c = [] \<longleftrightarrow> check_number q n c = []"
  by (simp add: check_number_def split: number_check.splits)

lemma concat_map_Nil: "concat (map f xs) = [] \<longleftrightarrow> (\<forall>x \<in> set xs. f x = [])"
  by (induction xs) auto

lemma checked_core:
  "(issues = [] \<longleftrightarrow> issues' = []) \<Longrightarrow> core (checked v issues) = core (checked v issues')"
  by (simp add: core_def checked_def)

lemma core_lists:
  assumes "map core rs = map core rs'"
  shows "map fst rs = map fst rs'" and "map (\<lambda>r. fst (snd r)) rs = map (\<lambda>r. fst (snd r)) rs'"
proof -
  from assms have "map fst (map core rs) = map fst (map core rs')" by simp
  then show "map fst rs = map fst rs'" by (simp add: core_def comp_def)
  from assms have "map snd (map core rs) = map snd (map core rs')" by simp
  then show "map (\<lambda>r. fst (snd r)) rs = map (\<lambda>r. fst (snd r)) rs'"
    by (simp add: core_def comp_def)
qed

lemma core_keyed:
  assumes "map (\<lambda>(k, r). (k, core r)) rs = map (\<lambda>(k, r). (k, core r)) rs'"
  shows "map (\<lambda>(k, r). fst r) rs = map (\<lambda>(k, r). fst r) rs'"
    and "map (\<lambda>(k, r). (k, fst (snd r), b k)) rs = map (\<lambda>(k, r). (k, fst (snd r), b k)) rs'"
proof -
  from assms have "map (\<lambda>(k, c). fst c) (map (\<lambda>(k, r). (k, core r)) rs)
      = map (\<lambda>(k, c). fst c) (map (\<lambda>(k, r). (k, core r)) rs')" by simp
  then show "map (\<lambda>(k, r). fst r) rs = map (\<lambda>(k, r). fst r) rs'"
    by (simp add: core_def comp_def case_prod_unfold)
  from assms have "map (\<lambda>(k, c). (k, snd c, b k)) (map (\<lambda>(k, r). (k, core r)) rs)
      = map (\<lambda>(k, c). (k, snd c, b k)) (map (\<lambda>(k, r). (k, core r)) rs')" by simp
  then show "map (\<lambda>(k, r). (k, fst (snd r), b k)) rs = map (\<lambda>(k, r). (k, fst (snd r), b k)) rs'"
    by (simp add: core_def comp_def case_prod_unfold)
qed

lemma pick_union_core:
  assumes "map core rs = map core rs'"
  shows "core (pick_union p rs) = core (pick_union q rs')"
proof -
  have m: "map core (filter (\<lambda>r. fst r = st) xs) = filter (\<lambda>c. fst c = st) (map core xs)"
    for xs :: "parsed list" and st
    by (induction xs) (simp_all add: core_def)
  have f: "map core (filter (\<lambda>r. fst r = st) rs) = map core (filter (\<lambda>r. fst r = st) rs')" for st
    by (simp only: m assms)
  show ?thesis
  proof (cases "filter (\<lambda>r. fst r = Valid) rs")
    case Nil
    with f [of Valid] have n': "filter (\<lambda>r. fst r = Valid) rs' = []" by simp
    show ?thesis
    proof (cases "filter (\<lambda>r. fst r = Dirty) rs")
      case d: Nil
      with f [of Dirty] have "filter (\<lambda>r. fst r = Dirty) rs' = []" by simp
      with Nil n' d show ?thesis by (simp add: pick_union_def core_def)
    next
      case d: (Cons a as)
      with f [of Dirty] obtain a' as' where d': "filter (\<lambda>r. fst r = Dirty) rs' = a' # as'"
        and "core a = core a'" by (cases "filter (\<lambda>r. fst r = Dirty) rs'") auto
      with Nil n' d show ?thesis by (simp add: pick_union_def)
    qed
  next
    case (Cons a as)
    with f [of Valid] obtain a' as' where "filter (\<lambda>r. fst r = Valid) rs' = a' # as'"
      and "core a = core a'" by (cases "filter (\<lambda>r. fst r = Valid) rs'") auto
    with Cons show ?thesis by (simp add: pick_union_def)
  qed
qed


lemma zparse_path: "core (zparse lib z p v) = core (zparse lib z q v)"
proof (induction lib z p v arbitrary: q rule: zparse.induct)
  case (1 lib p v)
  show ?case by (simp add: core_def)
next
  case (2 lib p v)
  show ?case by (simp add: core_def invalid_type_def)
next
  case (3 lib checks p v)
  show ?case
  proof (cases v)
    case (JStr s)
    have "concat (map (check_string lib p s) checks) = []
        \<longleftrightarrow> concat (map (check_string lib q s) checks) = []"
      unfolding concat_map_Nil using check_string_path [of lib p s _ q] by blast
    then show ?thesis unfolding JStr by (simp add: checked_core)
  qed (simp_all add: core_def invalid_type_def)
next
  case (4 lib vals p v)
  show ?case by (cases v) (simp_all add: core_def invalid_type_def)
next
  case (5 lib checks p v)
  show ?case
  proof (cases v)
    case (JNum n)
    have "concat (map (check_number p n) checks) = []
        \<longleftrightarrow> concat (map (check_number q n) checks) = []"
      unfolding concat_map_Nil using check_number_path [of p n _ q] by blast
    then show ?thesis unfolding JNum by (simp add: checked_core)
  qed (simp_all add: core_def invalid_type_def)
next
  case (6 lib p v)
  show ?case by (cases v) (simp_all add: core_def invalid_type_def)
next
  case (7 lib item minLength maxLength p v)
  show ?case
  proof (cases v)
    case (JArr xs)
    have e: "core (zparse lib item (p @ [Index i]) x) = core (zparse lib item (q @ [Index i]) x)"
      if "(i, x) \<in> set (zip [0 ..< length xs] xs)" for i x
      by (rule 7 [OF JArr refl that refl])
    have "map (\<lambda>(i, x). core (zparse lib item (p @ [Index i]) x)) (zip [0 ..< length xs] xs)
        = map (\<lambda>(i, x). core (zparse lib item (q @ [Index i]) x)) (zip [0 ..< length xs] xs)"
      by (rule map_cong [OF refl]) (use e in fastforce)
    then have r: "map core (map (\<lambda>(i, x). zparse lib item (p @ [Index i]) x) (zip [0 ..< length xs] xs))
           = map core (map (\<lambda>(i, x). zparse lib item (q @ [Index i]) x) (zip [0 ..< length xs] xs))"
      by (simp add: comp_def case_prod_unfold)
    note l = core_lists [OF r]
    show ?thesis
      unfolding JArr zparse.simps jsval.case Let_def core_def fst_conv snd_conv l
      by (simp add: merge_status_def split: option.splits)
  qed (simp_all add: core_def invalid_type_def)
next
  case (8 lib valueType p v)
  show ?case
  proof (cases v)
    case (JObj kvs)
    have e: "core (zparse lib valueType (p @ [Key k]) x) = core (zparse lib valueType (q @ [Key k]) x)"
      if "(k, x) \<in> set kvs" for k x
      by (rule 8 [OF JObj that refl])
    have "map (\<lambda>(k, x). (k, core (zparse lib valueType (p @ [Key k]) x))) kvs
        = map (\<lambda>(k, x). (k, core (zparse lib valueType (q @ [Key k]) x))) kvs"
      by (rule map_cong [OF refl]) (use e in fastforce)
    then have r: "map (\<lambda>(k, r). (k, core r)) (map (\<lambda>(k, x). (k, zparse lib valueType (p @ [Key k]) x)) kvs)
           = map (\<lambda>(k, r). (k, core r)) (map (\<lambda>(k, x). (k, zparse lib valueType (q @ [Key k]) x)) kvs)"
      by (simp add: comp_def case_prod_unfold)
    note l = core_keyed [OF r]
    show ?thesis
      unfolding JObj zparse.simps jsval.case Let_def core_def fst_conv snd_conv l
      by simp
  qed (simp_all add: core_def invalid_type_def)
next
  case (9 lib shape unknownKeys p v)
  show ?case
  proof (cases v)
    case (JObj kvs)
    have e: "core (zparse lib z (p @ [Key k]) (js_get v k)) = core (zparse lib z (q @ [Key k]) (js_get v k))"
      if "(k, z) \<in> set shape" for k z
      by (rule 9 [OF JObj that refl])
    have "map (\<lambda>(k, z). (k, core (zparse lib z (p @ [Key k]) (js_get v k)))) shape
        = map (\<lambda>(k, z). (k, core (zparse lib z (q @ [Key k]) (js_get v k)))) shape"
      by (rule map_cong [OF refl]) (use e in fastforce)
    then have r: "map (\<lambda>(k, r). (k, core r)) (map (\<lambda>(k, z). (k, zparse lib z (p @ [Key k]) (js_get v k))) shape)
           = map (\<lambda>(k, r). (k, core r)) (map (\<lambda>(k, z). (k, zparse lib z (q @ [Key k]) (js_get v k))) shape)"
      by (simp add: comp_def case_prod_unfold)
    note l = core_keyed(1) [OF r, unfolded JObj]
      core_keyed(2) [OF r, of "\<lambda>k. k \<in> set (map fst kvs)", unfolded JObj]
    show ?thesis
      unfolding JObj zparse.simps jsval.case Let_def core_def fst_conv snd_conv l
      by simp
  qed (simp_all add: core_def invalid_type_def)
next
  case (10 lib inner p v)
  show ?case
  proof (cases "v = JUndefined")
    case True
    then show ?thesis by simp
  next
    case False
    from 10 [OF False, of q] False show ?thesis by simp
  qed
next
  case (11 lib options p v)
  have "map (\<lambda>option. core (zparse lib option p v)) options
      = map (\<lambda>option. core (zparse lib option q v)) options"
    by (rule map_cong [OF refl]) (rule 11)
  then have "map core (map (\<lambda>option. zparse lib option p v) options)
      = map core (map (\<lambda>option. zparse lib option q v) options)"
    by (simp add: comp_def)
  then show ?case by (simp add: pick_union_core del: map_map)
next
  case (12 lib left right p v)
  have l: "core (zparse lib left p v) = core (zparse lib left q v)"
    by (rule 12(1))
  have r: "core (zparse lib right p v) = core (zparse lib right q v)"
    by (rule 12(2) [OF refl])
  from l r show ?case
    by (simp add: core_def Let_def split: option.splits)
next
  case (13 lib inner p v)
  from 13 [of q] show ?case by simp
qed

lemma zparse_status_path: "fst (zparse lib z p v) = fst (zparse lib z [] v)"
  using zparse_path [of lib z p v "[]"] by (simp add: core_def)

lemma merge_status_Valid: "merge_status [] sts = Valid \<longleftrightarrow> list_all (\<lambda>s. s = Valid) sts"
proof -
  have "(\<forall>s \<in> set sts. s = Valid) \<longleftrightarrow> Aborted \<notin> set sts \<and> Dirty \<notin> set sts"
  proof
    assume "Aborted \<notin> set sts \<and> Dirty \<notin> set sts"
    then show "\<forall>s \<in> set sts. s = Valid"
      by (metis status.exhaust)
  qed auto
  then show ?thesis by (auto simp: merge_status_def list_all_iff)
qed

lemma accepts_object:
  "accepts lib (ZObject shape unknownKeys) (JObj kvs)
     \<longleftrightarrow> list_all (\<lambda>(k, z). accepts lib z (js_get (JObj kvs) k)) shape"
  by (simp add: accepts_def Let_def merge_status_Valid list_all_iff
      zparse_status_path [of _ _ "[Key _]"] case_prod_unfold)

lemma accepts_optional:
  "accepts lib (ZOptional z) v \<longleftrightarrow> v = JUndefined \<or> accepts lib z v"
  by (simp add: accepts_def)

lemma mapE_list_all2: "mapE f xs = Inr ys \<Longrightarrow> list_all2 (\<lambda>x y. f x = Inr y) xs ys"
  by (induction xs arbitrary: ys) (auto split: sum.splits)

lemma obj_set_fresh: "k \<notin> set (map fst acc) \<Longrightarrow> obj_set acc k v = acc @ [(k, v)]"
  by (induction acc) auto

lemma fold_obj_set_distinct:
  "distinct (map fst ps) \<Longrightarrow> set (map fst ps) \<inter> set (map fst acc) = {} \<Longrightarrow>
   fold (\<lambda>(k, z) shape. obj_set shape k z) ps acc = acc @ ps"
proof (induction ps arbitrary: acc)
  case Nil
  show ?case by simp
next
  case (Cons a ps)
  obtain k z where a: "a = (k, z)" by (cases a)
  from Cons.prems have f: "k \<notin> set (map fst acc)" by (auto simp: a)
  have "fold (\<lambda>(k, z) shape. obj_set shape k z) ps (acc @ [(k, z)]) = (acc @ [(k, z)]) @ ps"
    using Cons.prems by (intro Cons.IH) (auto simp: a)
  with f show ?case by (simp add: a obj_set_fresh)
qed

lemma is_required_key:
  "is_required (js_get schema ''required'') key = Inr b \<Longrightarrow> b = required_key schema key"
  by (auto simp: is_required_def required_key_def js_truthy_def split: if_splits jsval.splits)

lemma compile_object:
  assumes "\<not> composite schema" and "js_get schema ''type'' = JStr ''object''"
    and "js_truthy (js_get schema ''properties'')"
  shows "jsonSchemaToZod lib schema =
     (case mapE (\<lambda>(key, propSchema).
                   case jsonSchemaToZod lib propSchema of
                     Inl e \<Rightarrow> Inl e
                   | Inr propZod \<Rightarrow>
                       bindE (is_required (js_get schema ''required'') key)
                         (\<lambda>req. Inr (key, if req then propZod else ZOptional propZod)))
             (js_entries (js_get schema ''properties'')) of
        Inl e \<Rightarrow> Inl e
      | Inr props \<Rightarrow>
          Inr (ZObject (fold (\<lambda>(key, propZod) shape. obj_set shape key propZod) props [])
                 Strip))"
proof -
  from assms(2) have "js_truthy schema"
    by (cases schema) (auto simp: js_get_def js_truthy_def array_index_def is_digit_def
        split: if_splits)
  with assms show ?thesis
    by (subst jsonSchemaToZod.simps) (simp add: composite_def js_truthy_def)
qed

lemma list_all2_shape:
  assumes "list_all2 (\<lambda>(key, propSchema) entry.
               (case jsonSchemaToZod lib propSchema of
                  Inl e \<Rightarrow> Inl e
                | Inr propZod \<Rightarrow>
                    bindE (is_required (js_get schema ''required'') key)
                      (\<lambda>req. Inr (key, if req then propZod else ZOptional propZod)))
               = Inr entry) props shape"
  shows "map fst shape = map fst props"
    and "list_all (\<lambda>(k, z). accepts lib z (js_get v k)) shape
      \<longleftrightarrow> list_all (\<lambda>(key, propSchema).
             (\<not> required_key schema key \<and> js_get v key = JUndefined)
             \<or> schema_accepts lib propSchema (js_get v key)) props"
  using assms
proof (induction props shape rule: list_all2_induct)
  case Nil
  { case 1 show ?case by simp }
  { case 2 show ?case by simp }
next
  case (Cons x xs y ys)
  obtain key propSchema where x: "x = (key, propSchema)" by (cases x)
  from Cons.hyps(1) obtain propZod b where c: "jsonSchemaToZod lib propSchema = Inr propZod"
    and r: "is_required (js_get schema ''required'') key = Inr b"
    and y: "y = (key, if b then propZod else ZOptional propZod)"
    by (auto simp: x bindE_def split: sum.splits)
  from r have b: "b = required_key schema key" by (rule is_required_key)
  { case 1 from Cons.IH(1) show ?case by (simp add: x y) }
  { case 2
    have "accepts lib (if b then propZod else ZOptional propZod) (js_get v key)
        \<longleftrightarrow> (\<not> required_key schema key \<and> js_get v key = JUndefined)
             \<or> schema_accepts lib propSchema (js_get v key)"
      using c b by (auto simp: schema_accepts_def accepts_optional accepts_def)
    with Cons.IH(2) show ?case by (simp add: x y) }
qed

text \<open>
  Claim C6, as amended. For an object schema with declared properties, distinct as the
  keys of an object are, and without \<open>_circular\<close>, \<open>oneOf\<close>, \<open>anyOf\<close> or
  \<open>allOf\<close> (which are handled before \<open>type\<close>), the compiled validator accepts an
  input object if and only if every declared property either has no value in the input and
  is not listed in \<open>required\<close>, or has a value (or none) that the validator of its
  own sub-schema accepts. So a declared key that is listed in \<open>required\<close> must be
  present unless the validator of its sub-schema accepts \<open>undefined\<close>; names listed
  in \<open>required\<close> that are not declared in \<open>properties\<close> are not checked; and
  keys that are not declared never cause rejection.
\<close>

theorem C6_object_validator:
  assumes "jsonSchemaToZod lib schema = Inr z"
    and "\<not> composite schema"
    and "js_get schema ''type'' = JStr ''object''"
    and "js_get schema ''properties'' = JObj props"
    and "distinct (map fst props)"
  shows "accepts lib z (JObj kvs) \<longleftrightarrow>
     list_all (\<lambda>(key, propSchema).
         (\<not> required_key schema key \<and> js_get (JObj kvs) key = JUndefined)
         \<or> schema_accepts lib propSchema (js_get (JObj kvs) key)) props"
proof -
  let ?f = "\<lambda>(key, propSchema).
               case jsonSchemaToZod lib propSchema of
                 Inl e \<Rightarrow> Inl e
               | Inr propZod \<Rightarrow>
                   bindE (is_required (js_get schema ''required'') key)
                     (\<lambda>req. Inr (key, if req then propZod else ZOptional propZod))"
  have t: "js_truthy (js_get schema ''properties'')"
    by (simp add: assms(4) js_truthy_def)
  from compile_object [OF assms(2,3) t, of lib] assms(1,4)
  obtain shape where m: "mapE ?f props = Inr shape"
    and z: "z = ZObject (fold (\<lambda>(key, propZod) sh. obj_set sh key propZod) shape []) Strip"
    by (auto simp: js_entries_def split: sum.splits)
  from mapE_list_all2 [OF m]
  have l: "list_all2 (\<lambda>x entry. ?f x = Inr entry) props shape" .
  then have l': "list_all2 (\<lambda>(key, propSchema) entry.
               (case jsonSchemaToZod lib propSchema of
                  Inl e \<Rightarrow> Inl e
                | Inr propZod \<Rightarrow>
                    bindE (is_required (js_get schema ''required'') key)
                      (\<lambda>req. Inr (key, if req then propZod else ZOptional propZod)))
               = Inr entry) props shape"
    by (simp add: case_prod_unfold)
  note s = list_all2_shape(1) [OF l'] list_all2_shape(2) [OF l', where v = "JObj kvs"]
  from s(1) assms(5) have "distinct (map fst shape)" by simp
  then have "fold (\<lambda>(key, propZod) sh. obj_set sh key propZod) shape [] = shape"
    using fold_obj_set_distinct [of shape "[]"] by simp
  with z have "z = ZObject shape Strip" by simp
  then show ?thesis
    using s(2) by (simp add: accepts_object)
qed

text \<open>The schema of the test suite: \<open>name\<close> and \<open>email\<close> required, \<open>age\<close>
  optional; an input with an undeclared key is accepted, one without \<open>name\<close> is not.\<close>

theorem C6_object_validator_witness:
  "jsonSchemaToZod demo_lib person_schema = Inr person_validator
   \<and> \<not> composite person_schema
   \<and> js_get person_schema ''type'' = JStr ''object''
   \<and> js_get person_schema ''properties'' = JObj person_properties
   \<and> distinct (map fst person_properties)
   \<and> accepts demo_lib person_validator (JObj john)
   \<and> \<not> accepts demo_lib person_validator (JObj [(''age'', JNum 30), (''email'', JStr ''a@b.com'')])
   \<and> (accepts demo_lib person_validator (JObj john) \<longleftrightarrow>
        list_all (\<lambda>(key, propSchema).
            (\<not> required_key person_schema key \<and> js_get (JObj john) key = JUndefined)
            \<or> schema_accepts demo_lib propSchema (js_get (JObj john) key)) person_properties)"
proof -
  have c: "jsonSchemaToZod demo_lib person_schema = Inr person_validator" by code_simp
  have n: "\<not> composite person_schema" by code_simp
  have t: "js_get person_schema ''type'' = JStr ''object''" by code_simp
  have p: "js_get person_schema ''properties'' = JObj person_properties" by code_simp
  have d: "distinct (map fst person_properties)" by code_simp
  have a: "accepts demo_lib person_validator (JObj john)" by code_simp
  have r: "\<not> accepts demo_lib person_validator
              (JObj [(''age'', JNum 30), (''email'', JStr ''a@b.com'')])" by code_simp
  from C6_object_validator [OF c n t p d, of john] c n t p d a r show ?thesis by blast
qed

text \<open>Claim C6 as stated fails: the empty object is accepted although \<open>b\<close> is listed
  in \<open>required\<close>, because \<open>b\<close> is not declared in \<open>properties\<close>; and it is
  accepted although the declared key \<open>a\<close> is listed in \<open>required\<close>, because the
  validator of an untyped sub-schema accepts \<open>undefined\<close>.\<close>

theorem C6_required_counterexample:
  "jsonSchemaToZod demo_lib undeclared_required_schema
     = Inr (ZObject [(''a'', ZOptional (ZString []))] Strip)
   \<and> required_key undeclared_required_schema ''b''
   \<and> js_get (JObj []) ''b'' = JUndefined
   \<and> accepts demo_lib (ZObject [(''a'', ZOptional (ZString []))] Strip) (JObj [])
   \<and> jsonSchemaToZod demo_lib untyped_required_schema = Inr (ZObject [(''a'', ZAny)] Strip)
   \<and> required_key untyped_required_schema ''a''
   \<and> js_get (JObj []) ''a'' = JUndefined
   \<and> accepts demo_lib (ZObject [(''a'', ZAny)] Strip) (JObj [])"
  by code_simp







section \<open>Properties of the dispatcher\<close>



lemma keys_fold_obj_set:
  "set (map fst (fold (\<lambda>(k, z) sh. obj_set sh k z) ps acc)) = set (map fst acc) \<union> set (map fst ps)"
proof (induction ps arbitrary: acc)
  case Nil
  show ?case by simp
next
  case (Cons a ps)
  obtain k z where a: "a = (k, z)" by (cases a)
  have "set (map fst (obj_set acc k z)) = insert k (set (map fst acc))"
    by (simp add: keys_obj_set insert_absorb)
  with Cons [of "obj_set acc k z"] show ?case by (auto simp: a)
qed

lemma keys_build_object:
  "set (map fst (build_object pairs acc)) \<subseteq> set (map fst acc) \<union> set (map fst pairs)"
proof (induction pairs arbitrary: acc)
  case Nil
  show ?case by simp
next
  case (Cons a pairs)
  obtain k x b where a: "a = (k, x, b)" by (cases a)
  have "set (map fst (obj_set acc k x)) = insert k (set (map fst acc))"
    by (simp add: keys_obj_set insert_absorb)
  with Cons [of "obj_set acc k x"] Cons [of acc] show ?case by (auto simp: a)
qed

lemma parse_object_keys:
  assumes "parse lib (ZObject shape Strip) v = Inr out"
  shows "\<exists>kvs. out = JObj kvs \<and> set (map fst kvs) \<subseteq> set (map fst shape)"
proof (cases v)
  case (JObj input)
  let ?pairs = "map (\<lambda>(k, r). (k, fst (snd r), k \<in> set (map fst input)))
                  (map (\<lambda>(k, keyValidator).
                          (k, zparse lib keyValidator ([] @ [Key k]) (js_get (JObj input) k))) shape)"
  from assms have "out = JObj (build_object ?pairs [])"
    unfolding JObj by (simp add: parse_def Let_def split: status.splits)
  moreover have "set (map fst ?pairs) = set (map fst shape)"
    by (simp add: comp_def case_prod_unfold)
  ultimately show ?thesis
    using keys_build_object [of ?pairs "[]"] by auto
qed (use assms in \<open>simp_all add: parse_def invalid_type_def\<close>)

lemma object_shape_keys:
  assumes "jsonSchemaToZod lib schema = Inr z"
    and "\<not> composite schema"
    and "js_get schema ''type'' = JStr ''object''"
    and "js_truthy (js_get schema ''properties'')"
  shows "\<exists>shape. z = ZObject shape Strip
           \<and> set (map fst shape) = set (js_keys (js_get schema ''properties''))"
proof -
  let ?f = "\<lambda>(key, propSchema).
               case jsonSchemaToZod lib propSchema of
                 Inl e \<Rightarrow> Inl e
               | Inr propZod \<Rightarrow>
                   bindE (is_required (js_get schema ''required'') key)
                     (\<lambda>req. Inr (key, if req then propZod else ZOptional propZod))"
  from compile_object [OF assms(2,3,4), of lib] assms(1)
  obtain props where m: "mapE ?f (js_entries (js_get schema ''properties'')) = Inr props"
    and z: "z = ZObject (fold (\<lambda>(key, propZod) sh. obj_set sh key propZod) props []) Strip"
    by (auto split: sum.splits)
  from mapE_list_all2 [OF m]
  have "list_all2 (\<lambda>(key, propSchema) entry.
               (case jsonSchemaToZod lib propSchema of
                  Inl e \<Rightarrow> Inl e
                | Inr propZod \<Rightarrow>
                    bindE (is_required (js_get schema ''required'') key)
                      (\<lambda>req. Inr (key, if req then propZod else ZOptional propZod)))
               = Inr entry) (js_entries (js_get schema ''properties'')) props"
    by (simp add: case_prod_unfold)
  from list_all2_shape(1) [OF this]
  have "map fst props = js_keys (js_get schema ''properties'')"
    by (simp add: js_keys_def)
  with keys_fold_obj_set [of props "[]"]
  have "set (map fst (fold (\<lambda>(key, propZod) sh. obj_set sh key propZod) props []))
      = set (js_keys (js_get schema ''properties''))"
    by simp
  with z show ?thesis by blast
qed

lemma handler_calls:
  assumes "createToolHandler lib stringify executor t arguments = Some result"
    and "(t', ps) \<in> set (executor_calls result)"
  shows "t' = t \<and> (\<exists>z. jsonSchemaToZod lib (inputSchema t) = Inr z
            \<and> parse lib z (if js_truthy arguments then arguments else JObj []) = Inr ps)"
  using assms
  by (auto simp: createToolHandler_def Let_def split: sum.splits failure.splits)

text \<open>
  Claim C10, as amended. For a tool whose input schema is an object schema with declared
  properties and without \<open>_circular\<close>, \<open>oneOf\<close>, \<open>anyOf\<close> or \<open>allOf\<close>,
  every parameter object that the handler passes to the request executor is an object
  whose keys are all declared in \<open>properties\<close>: the validator has stripped the keys
  that are not declared.
\<close>

theorem C10_validated_input_keys:
  assumes "\<not> composite (inputSchema t)"
    and "js_get (inputSchema t) ''type'' = JStr ''object''"
    and "js_truthy (js_get (inputSchema t) ''properties'')"
    and "createToolHandler lib stringify executor t arguments = Some result"
    and "(t', ps) \<in> set (executor_calls result)"
  shows "t' = t \<and> (\<exists>kvs. ps = JObj kvs
            \<and> set (map fst kvs) \<subseteq> set (js_keys (js_get (inputSchema t) ''properties'')))"
proof -
  from handler_calls [OF assms(4,5)]
  obtain z where t: "t' = t" and c: "jsonSchemaToZod lib (inputSchema t) = Inr z"
    and p: "parse lib z (if js_truthy arguments then arguments else JObj []) = Inr ps"
    by blast
  from object_shape_keys [OF c assms(1,2,3)]
  obtain shape where "z = ZObject shape Strip"
    and k: "set (map fst shape) = set (js_keys (js_get (inputSchema t) ''properties''))"
    by blast
  with p parse_object_keys [of lib shape _ ps] k t show ?thesis by auto
qed

text \<open>The key \<open>extra\<close> is not declared and does not reach the request executor.\<close>

theorem C10_validated_input_keys_witness:
  "\<not> composite (inputSchema get_user_tool)
   \<and> js_get (inputSchema get_user_tool) ''type'' = JStr ''object''
   \<and> js_truthy (js_get (inputSchema get_user_tool) ''properties'')
   \<and> createToolHandler demo_lib (\<lambda>v. ''{}'') (\<lambda>t ps. Inr (JObj [])) get_user_tool extra_args
       = Some \<lparr>content_text = ''{}'',
               executor_calls = [(get_user_tool, JObj [(''id'', JStr ''7'')])]\<rparr>
   \<and> js_keys (js_get (inputSchema get_user_tool) ''properties'') = [''id'']
   \<and> (\<exists>kvs. JObj [(''id'', JStr ''7'')] = JObj kvs
          \<and> set (map fst kvs)
               \<subseteq> set (js_keys (js_get (inputSchema get_user_tool) ''properties'')))"
proof -
  have n: "\<not> composite (inputSchema get_user_tool)" by code_simp
  have t: "js_get (inputSchema get_user_tool) ''type'' = JStr ''object''" by code_simp
  have p: "js_truthy (js_get (inputSchema get_user_tool) ''properties'')" by code_simp
  have h: "createToolHandler demo_lib (\<lambda>v. ''{}'') (\<lambda>t ps. Inr (JObj [])) get_user_tool extra_args
       = Some \<lparr>content_text = ''{}'',
               executor_calls = [(get_user_tool, JObj [(''id'', JStr ''7'')])]\<rparr>"
    by code_simp
  have k: "js_keys (js_get (inputSchema get_user_tool) ''properties'') = [''id'']" by code_simp
  have m: "(get_user_tool, JObj [(''id'', JStr ''7'')])
      \<in> set (executor_calls \<lparr>content_text = ''{}'',
               executor_calls = [(get_user_tool, JObj [(''id'', JStr ''7'')])]\<rparr>)"
    by simp
  from C10_validated_input_keys [OF n t p h m] n t p h k show ?thesis by blast
qed

text \<open>Claim C10 as stated fails: the input schema is an object schema with the declared
  property \<open>id\<close>, but it also has \<open>allOf\<close>, so the validator is compiled from
  \<open>allOf\<close> alone and the undeclared key \<open>extra\<close> reaches the request
  executor.\<close>

theorem C10_undeclared_key_counterexample:
  "js_get (inputSchema allOf_tool) ''type'' = JStr ''object''
   \<and> js_keys (js_get (inputSchema allOf_tool) ''properties'') = [''id'']
   \<and> createToolHandler demo_lib (\<lambda>v. ''{}'') (\<lambda>t ps. Inr (JObj [])) allOf_tool extra_args
       = Some \<lparr>content_text = ''{}'',
               executor_calls = [(allOf_tool, JObj [(''id'', JStr ''7''), (''extra'', JStr ''x'')])]\<rparr>"
  by code_simp

subsection \<open>Reference resolution\<close>









end
